theory Spec2Isabelle
  imports Main "HOL-Library.Sublist"
begin

section \<open>The parsed schema\<close>

text \<open>
  \<^verbatim>\<open>GenerateFragments.ts\<close> works on the schema object that \<^verbatim>\<open>buildASTSchema\<close> returns.
  A field carries its declared type twice: as the AST node \<^verbatim>\<open>field.astNode.type\<close>
  (kinds \<^verbatim>\<open>NamedType\<close>, \<^verbatim>\<open>ListType\<close>, \<^verbatim>\<open>NonNullType\<close>) and as the type object
  \<^verbatim>\<open>field.type\<close> built from that node, so one \<open>typeNode\<close> stands for both.
  Names come from the GraphQL lexer: they are never empty, so the JavaScript
  truthiness tests on a name always succeed.
\<close>

datatype typeNode = NamedType string | ListType typeNode | NonNullType typeNode

datatype namedType =
    GraphQLScalarType
  | GraphQLObjectType "(string \<times> typeNode) list"
  | GraphQLInterfaceType
  | GraphQLUnionType
  | GraphQLEnumType
  | GraphQLInputObjectType

text \<open>
  \<open>typeMap\<close> lists \<^verbatim>\<open>ast.getTypeMap()\<close> in the order of \<^verbatim>\<open>Object.keys\<close>; the three root
  types are given by name, \<open>None\<close> where the schema has none.
\<close>

record schema =
  typeMap :: "(string \<times> namedType) list"
  queryType :: "string option"
  mutationType :: "string option"
  subscriptionType :: "string option"

datatype error = TypeError | SchemaMalformedList

record Fragment =
  name :: string
  fragment :: string

text \<open>
  The tier configuration (\<^verbatim>\<open>modelConfigs\<close>): for a type name, the tier labels with
  their allow-lists, both in the order of \<^verbatim>\<open>Object.keys\<close>.
\<close>

type_synonym ModelConfig = "(string \<times> string list) list"

datatype fragmentType = DEFAULT | NO_RELATIONS | DEEP

fun fragmentTypeStr :: "fragmentType \<Rightarrow> string" where
  "fragmentTypeStr DEFAULT = ''''"
| "fragmentTypeStr NO_RELATIONS = ''NoNesting''"
| "fragmentTypeStr DEEP = ''DeepNesting''"

section \<open>Errors and JavaScript helpers\<close>

definition andThen :: "error + 'a \<Rightarrow> ('a \<Rightarrow> error + 'b) \<Rightarrow> error + 'b" where
  "andThen m f = (case m of Inl e \<Rightarrow> Inl e | Inr x \<Rightarrow> f x)"

text \<open>\<^verbatim>\<open>Array.prototype.map\<close> with a callback that may throw: the first throw ends it.\<close>

fun mapE :: "('a \<Rightarrow> error + 'b) \<Rightarrow> 'a list \<Rightarrow> error + 'b list" where
  "mapE f [] = Inr []"
| "mapE f (x # xs) = andThen (f x) (\<lambda>y. andThen (mapE f xs) (\<lambda>ys. Inr (y # ys)))"

text \<open>\<^verbatim>\<open>a || b\<close> on values that are an object or undefined/null.\<close>

fun orElse :: "'a option \<Rightarrow> 'a option \<Rightarrow> 'a option" where
  "orElse (Some a) b = Some a"
| "orElse None b = b"

text \<open>\<^verbatim>\<open>.filter(x => x != null)\<close>\<close>

fun nonNull :: "'a option list \<Rightarrow> 'a list" where
  "nonNull [] = []"
| "nonNull (None # xs) = nonNull xs"
| "nonNull (Some x # xs) = x # nonNull xs"

text \<open>The module's \<^verbatim>\<open>flatten\<close>: absent sub-arrays are skipped.\<close>

fun flatten :: "'a list option list \<Rightarrow> 'a list" where
  "flatten [] = []"
| "flatten (None # xs) = flatten xs"
| "flatten (Some sub # xs) = sub @ flatten xs"

text \<open>\<^verbatim>\<open>Array.prototype.join\<close>\<close>

fun join :: "string \<Rightarrow> string list \<Rightarrow> string" where
  "join sep [] = []"
| "join sep [x] = x"
| "join sep (x # y # ys) = x @ sep @ join sep (y # ys)"

text \<open>\<^verbatim>\<open>s.indexOf(p) !== -1\<close>\<close>

fun includesStr :: "string \<Rightarrow> string \<Rightarrow> bool" where
  "includesStr p [] = (p = [])"
| "includesStr p (c # cs) = (prefix p (c # cs) \<or> includesStr p cs)"

text \<open>
  \<^verbatim>\<open>s.replace(RegExp(p, 'g'), r)\<close> for a pattern \<open>p\<close> that matches only its own text
  and a replacement without \<^verbatim>\<open>$\<close>: matches are taken from the left and do not overlap.
  The patterns of this module are never empty. The pattern \<^verbatim>\<open>/DeepNesting/g\<close> is of this
  kind; the patterns built from the keys of the tier configuration are when the keys
  are GraphQL names (\<open>keysAreNames\<close> below), and the replacement has no \<^verbatim>\<open>$\<close> then.
\<close>

function replaceAll :: "string \<Rightarrow> string \<Rightarrow> string \<Rightarrow> string" where
  "replaceAll p r [] = []"
| "replaceAll p r (c # cs) =
     (if p \<noteq> [] \<and> prefix p (c # cs)
      then r @ replaceAll p r (drop (length p - 1) cs)
      else c # replaceAll p r cs)"
  by pat_completeness auto
termination
  by (relation "measure (\<lambda>(p, r, s). length s)") auto

declare replaceAll.simps(2) [simp del]

text \<open>\<^verbatim>\<open>f.split(' ')[0]\<close>\<close>

definition firstToken :: "string \<Rightarrow> string" where
  "firstToken f = takeWhile (\<lambda>c. c \<noteq> CHR '' '') f"

definition indentedLine :: "nat \<Rightarrow> string" where
  "indentedLine level = CHR 0x0A # concat (replicate level ''  '')"

section \<open>printField\<close>

fun constructorName :: "namedType \<Rightarrow> string" where
  "constructorName GraphQLScalarType = ''GraphQLScalarType''"
| "constructorName (GraphQLObjectType fs) = ''GraphQLObjectType''"
| "constructorName GraphQLInterfaceType = ''GraphQLInterfaceType''"
| "constructorName GraphQLUnionType = ''GraphQLUnionType''"
| "constructorName GraphQLEnumType = ''GraphQLEnumType''"
| "constructorName GraphQLInputObjectType = ''GraphQLInputObjectType''"

definition getType :: "schema \<Rightarrow> string \<Rightarrow> namedType option" where
  "getType ast n = map_of (typeMap ast) n"

text \<open>The properties \<^verbatim>\<open>type\<close>, \<^verbatim>\<open>name.value\<close> and \<^verbatim>\<open>kind\<close> of an AST type node.\<close>

fun nodeType :: "typeNode \<Rightarrow> typeNode option" where
  "nodeType (NamedType n) = None"
| "nodeType (ListType t) = Some t"
| "nodeType (NonNullType t) = Some t"

fun nodeName :: "typeNode \<Rightarrow> string option" where
  "nodeName (NamedType n) = Some n"
| "nodeName (ListType t) = None"
| "nodeName (NonNullType t) = None"

fun nodeKind :: "typeNode \<Rightarrow> string" where
  "nodeKind (NamedType n) = ''NamedType''"
| "nodeKind (ListType t) = ''ListType''"
| "nodeKind (NonNullType t) = ''NonNullType''"

text \<open>
  The variable \<^verbatim>\<open>field\<close> of \<^verbatim>\<open>printField\<close> starts as the schema's field object and may
  be overwritten with an AST type node.
\<close>

datatype jsField = GraphQLField string typeNode | AstNode typeNode

fun fieldKind :: "jsField \<Rightarrow> string option" where
  "fieldKind (GraphQLField f t) = None"
| "fieldKind (AstNode t) = Some (nodeKind t)"

text \<open>
  \<^verbatim>\<open>(ast.getType(n) as GraphQLNamedType).constructor.name\<close>; a schema that was built
  has every name it mentions in its type map, the error is what an absent one
  would give.
\<close>

definition ctorOfNamed :: "schema \<Rightarrow> string \<Rightarrow> error + string" where
  "ctorOfNamed ast n =
     (case getType ast n of None \<Rightarrow> Inl TypeError | Some ty \<Rightarrow> Inr (constructorName ty))"

text \<open>
  \<^verbatim>\<open>field.type.constructor.name\<close> of the schema's field. No type object has the
  constructor \<^verbatim>\<open>Object\<close>, so the branch of lines 452-456 is never taken.
\<close>

fun typeCtor :: "schema \<Rightarrow> typeNode \<Rightarrow> error + string" where
  "typeCtor ast (NamedType n) = ctorOfNamed ast n"
| "typeCtor ast (ListType t) = Inr ''GraphQLList''"
| "typeCtor ast (NonNullType t) = Inr ''GraphQLNonNull''"

text \<open>
  \<^verbatim>\<open>(node.name && ast.getType(node.name.value).constructor.name) || null\<close>
\<close>

definition ctorOrNull :: "schema \<Rightarrow> typeNode \<Rightarrow> error + string option" where
  "ctorOrNull ast node =
     (case nodeName node of
        None \<Rightarrow> Inr None
      | Some n \<Rightarrow> andThen (ctorOfNamed ast n) (\<lambda>c. Inr (Some c)))"

text \<open>Lines 458-467, for the schema's field of declared type \<open>t\<close>.\<close>

definition listStep :: "schema \<Rightarrow> typeNode \<Rightarrow> error + (jsField \<times> string option)" where
  "listStep ast t =
     (case nodeType t of
        None \<Rightarrow> Inl TypeError
      | Some t1 \<Rightarrow>
          (case orElse (nodeType t1) (orElse (Some t1) None) of
             None \<Rightarrow> Inl SchemaMalformedList
           | Some node \<Rightarrow>
               (case nodeName node of
                  None \<Rightarrow> Inl TypeError
                | Some n \<Rightarrow> andThen (ctorOfNamed ast n) (\<lambda>c. Inr (AstNode node, Some c)))))"

text \<open>Lines 470-481. An AST node has no \<^verbatim>\<open>astNode\<close>, reading its \<^verbatim>\<open>type\<close> throws.\<close>

fun nonNullStep :: "schema \<Rightarrow> jsField \<Rightarrow> error + (jsField \<times> string option)" where
  "nonNullStep ast (AstNode t) = Inl TypeError"
| "nonNullStep ast (GraphQLField f t) =
     (case nodeType t of
        None \<Rightarrow> Inl TypeError
      | Some t1 \<Rightarrow>
          andThen (ctorOrNull ast t1) (\<lambda>c.
            case c of
              Some c1 \<Rightarrow> Inr (AstNode t, Some c1)
            | None \<Rightarrow>
                (case nodeType t1 of
                   None \<Rightarrow> Inl TypeError
                 | Some t2 \<Rightarrow> andThen (ctorOrNull ast t2) (\<lambda>c2. Inr (AstNode t1, c2)))))"

text \<open>
  Lines 495-497: \<^verbatim>\<open>(field.name && field.name.value) || ((field.type.name.value &&
  field.type.name.value) || field.type.name)\<close>. The name of the schema's field is a
  string, whose \<^verbatim>\<open>value\<close> is undefined, and so is the name of its type object.
\<close>

fun typeNameOf :: "jsField \<Rightarrow> error + string" where
  "typeNameOf (GraphQLField f (NamedType n)) = Inr n"
| "typeNameOf (GraphQLField f t) = Inl TypeError"
| "typeNameOf (AstNode node) =
     (case nodeName node of
        Some n \<Rightarrow> Inr n
      | None \<Rightarrow>
          (case nodeType node of
             None \<Rightarrow> Inl TypeError
           | Some t1 \<Rightarrow> (case nodeName t1 of Some n \<Rightarrow> Inr n | None \<Rightarrow> Inl TypeError)))"

definition spreadTarget :: "fragmentType \<Rightarrow> string \<Rightarrow> string" where
  "spreadTarget ft typeName =
     (if ft = DEEP then typeName @ fragmentTypeStr DEEP
      else if ft = DEFAULT then typeName @ fragmentTypeStr NO_RELATIONS
      else typeName @ fragmentTypeStr DEFAULT)"

text \<open>Lines 450-482: the constructor name the field is classified by, \<open>None\<close> for \<^verbatim>\<open>null\<close>.\<close>

definition classifyField ::
  "schema \<Rightarrow> string \<Rightarrow> typeNode \<Rightarrow> error + (jsField \<times> string option)" where
  "classifyField ast fieldName t =
     andThen (typeCtor ast t) (\<lambda>c0.
     andThen (if c0 = ''GraphQLList'' then listStep ast t
              else Inr (GraphQLField fieldName t, Some c0)) (\<lambda>(field1, c1).
       if c1 = Some ''GraphQLNonNull'' \<or> fieldKind field1 = Some ''NonNullType''
       then nonNullStep ast field1 else Inr (field1, c1)))"

text \<open>Lines 443-515.\<close>

definition printField ::
  "schema \<Rightarrow> string \<Rightarrow> typeNode \<Rightarrow> fragmentType \<Rightarrow> nat \<Rightarrow> error + string option" where
  "printField ast fieldName t ft indent =
     andThen (classifyField ast fieldName t) (\<lambda>(field2, c2).
       if c2 = Some ''GraphQLScalarType'' \<or> c2 = Some ''GraphQLEnumType'' then Inr (Some fieldName)
       else if c2 = Some ''GraphQLObjectType'' then
         (if ft = NO_RELATIONS then Inr None
          else andThen (typeNameOf field2) (\<lambda>typeName.
                 Inr (Some (fieldName @ '' {'' @ indentedLine (indent + 1) @ ''...''
                            @ spreadTarget ft typeName @ indentedLine indent @ ''}''))))
       else Inr None)"

section \<open>generateFragments\<close>

definition getFields :: "namedType \<Rightarrow> error + (string \<times> typeNode) list" where
  "getFields ty = (case ty of GraphQLObjectType fs \<Rightarrow> Inr fs | _ \<Rightarrow> Inl TypeError)"

definition generateFragments :: "namedType \<Rightarrow> schema \<Rightarrow> fragmentType \<Rightarrow> error + string list" where
  "generateFragments ty ast ft =
     andThen (getFields ty) (\<lambda>fields.
     andThen (mapE (\<lambda>(field, t). printField ast field t ft 1) fields) (\<lambda>printed.
       Inr (nonNull printed)))"

section \<open>makeFragments\<close>

text \<open>
  Lines 234-262. Each \<^verbatim>\<open>filter\<close> runs over the whole array before the next one, so the
  name of the query type is read once for every name that the first three filters
  keep, and not at all when they keep none. The comparison function of the final
  \<^verbatim>\<open>sort\<close> compares the constructor names, which are all \<^verbatim>\<open>GraphQLObjectType\<close> here: it
  answers 1 for every pair, and the order that results is left to the JavaScript
  engine. The engine's \<^verbatim>\<open>sort\<close> is the parameter \<open>srt\<close>.
\<close>

definition isObjectTypeName :: "schema \<Rightarrow> string \<Rightarrow> bool" where
  "isObjectTypeName ast n =
     (case getType ast n of None \<Rightarrow> False | Some ty \<Rightarrow> constructorName ty = ''GraphQLObjectType'')"

definition candidateNames :: "schema \<Rightarrow> string list" where
  "candidateNames ast =
     filter (\<lambda>n. \<not> prefix ''__'' n)
       (filter (isObjectTypeName ast)
         (filter (\<lambda>n. getType ast n \<noteq> None) (map fst (typeMap ast))))"

definition typeNames :: "(string list \<Rightarrow> string list) \<Rightarrow> schema \<Rightarrow> error + string list" where
  "typeNames srt ast =
     andThen
       (if candidateNames ast = [] then Inr []
        else (case queryType ast of
                None \<Rightarrow> Inl TypeError
              | Some q \<Rightarrow> Inr (filter (\<lambda>n. n \<noteq> q) (candidateNames ast))))
       (\<lambda>ns. Inr (srt
          (filter (\<lambda>n. case subscriptionType ast of Some s \<Rightarrow> n \<noteq> s | None \<Rightarrow> True)
            (filter (\<lambda>n. case mutationType ast of Some m \<Rightarrow> n \<noteq> m | None \<Rightarrow> True) ns))))"

text \<open>The callbacks of lines 266-279 and 281-297; \<open>None\<close> is their \<^verbatim>\<open>null\<close>.\<close>

definition standardFragment :: "schema \<Rightarrow> string \<Rightarrow> error + Fragment option" where
  "standardFragment ast typeName =
     (case getType ast typeName of
        None \<Rightarrow> Inl TypeError
      | Some ty \<Rightarrow>
          andThen (generateFragments ty ast DEFAULT) (\<lambda>fields.
            if length fields = 0 then Inr None
            else Inr (Some \<lparr>name = typeName,
              fragment = ''fragment '' @ typeName @ '' on '' @ typeName @ '' {\<newline>  ''
                @ join (indentedLine 1) fields @ ''\<newline>}\<newline>''\<rparr>)))"

definition noRelationsFragment :: "schema \<Rightarrow> string \<Rightarrow> error + Fragment option" where
  "noRelationsFragment ast typeName =
     (case getType ast typeName of
        None \<Rightarrow> Inl TypeError
      | Some ty \<Rightarrow>
          andThen (generateFragments ty ast NO_RELATIONS) (\<lambda>fields.
            if length fields = 0 then Inr None
            else Inr (Some \<lparr>name = typeName,
              fragment = ''fragment '' @ typeName @ fragmentTypeStr NO_RELATIONS @ '' on ''
                @ typeName @ '' {\<newline>  '' @ join (indentedLine 1) fields @ ''\<newline>}\<newline>''\<rparr>)))"

text \<open>
  \<^verbatim>\<open>modelConfigs[name]\<close>: the file's own entry, else what \<^verbatim>\<open>Object.prototype\<close> has under
  that name, a function, which is truthy and has no keys of its own. (The inherited
  names that start with two underscores never reach this point.)
\<close>

definition objectPrototypeNames :: "string list" where
  "objectPrototypeNames =
     [''constructor'', ''hasOwnProperty'', ''isPrototypeOf'', ''propertyIsEnumerable'',
      ''toLocaleString'', ''toString'', ''valueOf'']"

definition modelConfigOf :: "(string \<times> ModelConfig) list \<Rightarrow> string \<Rightarrow> ModelConfig option" where
  "modelConfigOf modelConfigs n =
     (case map_of modelConfigs n of
        Some entry \<Rightarrow> Some entry
      | None \<Rightarrow> if n \<in> set objectPrototypeNames then Some [] else None)"

text \<open>
  The loops of lines 327-330, 333-336 and 348-351, with the listing they insert. The
  regular expression \<^verbatim>\<open>\.\.\.<key>DeepNesting\<close> is rendered as the text it matches when the
  key is a GraphQL name; what the code does for a key with metacharacters is not
  modelled, and every property of a rewritten text assumes \<open>keysAreNames\<close>.
\<close>

fun replaceModels :: "string \<Rightarrow> string list \<Rightarrow> string \<Rightarrow> string" where
  "replaceModels listing [] frag = frag"
| "replaceModels listing (modelName # rest) frag =
     replaceModels listing rest
       (replaceAll (''...'' @ modelName @ ''DeepNesting'') (''...'' @ modelName @ listing) frag)"

text \<open>Lines 310-322.\<close>

definition spreadFragments :: "string \<Rightarrow> string \<Rightarrow> string list" where
  "spreadFragments typeName sfx =
     (let s1 = (if sfx = ''Admin'' then [''...'' @ typeName @ ''AdminListing''] else []);
          s2 = (if sfx = ''AdminListing'' then s1 @ [''...'' @ typeName @ ''PublicListing''] else s1);
          s3 = (if sfx = ''Public'' then s2 @ [''...'' @ typeName @ ''PublicListing''] else s2)
      in if length s3 \<noteq> 0 then s3 @ [[]] else s3)"

text \<open>The callback of lines 308-343, for one tier label and its allow-list.\<close>

definition tierFragment ::
  "string list \<Rightarrow> string \<Rightarrow> string list \<Rightarrow> string \<times> string list \<Rightarrow> Fragment" where
  "tierFragment modelNames typeName deepFields tier =
     (case tier of (sfx, allowlist) \<Rightarrow>
        let fragment0 = ''fragment '' @ typeName @ sfx @ '' on '' @ typeName @ '' {\<newline>  ''
              @ join (indentedLine 1) (spreadFragments typeName sfx)
              @ join (indentedLine 1) (filter (\<lambda>f. firstToken f \<in> set allowlist) deepFields)
              @ ''\<newline>}'';
            fragment1 = (if \<not> includesStr ''Admin'' sfx
                         then replaceModels ''PublicListing'' modelNames fragment0
                         else replaceModels ''AdminListing'' modelNames fragment0)
        in \<lparr>name = typeName @ sfx, fragment = replaceAll ''DeepNesting'' ''Full'' fragment1\<rparr>)"

text \<open>Lines 345-356.\<close>

definition fullFragment :: "string list \<Rightarrow> string \<Rightarrow> string list \<Rightarrow> Fragment" where
  "fullFragment modelNames typeName deepFields =
     (let fragment0 = ''fragment '' @ typeName @ ''Full on '' @ typeName @ '' {\<newline>  ''
            @ join (indentedLine 1) deepFields @ ''\<newline>}'';
          fragment1 = replaceModels ''PublicListing'' modelNames fragment0
      in \<lparr>name = typeName @ ''Full'', fragment = replaceAll ''DeepNesting'' ''Full'' fragment1\<rparr>)"

text \<open>The callback of lines 299-358.\<close>

definition deepFragmentsOf ::
  "schema \<Rightarrow> (string \<times> ModelConfig) list \<Rightarrow> string \<Rightarrow> error + Fragment list option" where
  "deepFragmentsOf ast modelConfigs typeName =
     (case getType ast typeName of
        None \<Rightarrow> Inl TypeError
      | Some ty \<Rightarrow>
          andThen (generateFragments ty ast DEEP) (\<lambda>fields.
            if length fields = 0 then Inr None
            else (case modelConfigOf modelConfigs typeName of
                    Some entry \<Rightarrow>
                      Inr (Some (map (tierFragment (map fst modelConfigs) typeName fields) entry))
                  | None \<Rightarrow>
                      Inr (Some [fullFragment (map fst modelConfigs) typeName fields]))))"

text \<open>The two single-file renderings, lines 364-387 and 394-428.\<close>

definition jsModule :: "Fragment list \<Rightarrow> Fragment list \<Rightarrow> Fragment list \<Rightarrow> string" where
  "jsModule standard noRelations deep =
     ''// THIS FILE HAS BEEN AUTO-GENERATED BY '' @ [CHR 0x22] @ ''graphql-cli-generate-fragments''
     @ [CHR 0x22] @ ''\<newline>// DO NOT EDIT THIS FILE DIRECTLY\<newline>''
     @ concat (map (\<lambda>f. ''\<newline>export const '' @ name f @ ''Fragment = '' @ [CHR 0x60] @ fragment f
                         @ [CHR 0x60] @ ''\<newline>'') standard)
     @ ''\<newline>''
     @ concat (map (\<lambda>f. ''\<newline>export const '' @ name f @ fragmentTypeStr NO_RELATIONS
                         @ ''Fragment = '' @ [CHR 0x60] @ fragment f @ [CHR 0x60] @ ''\<newline>'')
                noRelations)
     @ ''\<newline>''
     @ concat (map (\<lambda>f. ''\<newline>export const '' @ name f @ fragmentTypeStr DEEP
                         @ ''Fragment = '' @ [CHR 0x60] @ fragment f @ [CHR 0x60] @ ''\<newline>'')
                deep)
     @ ''\<newline>''"

definition graphqlDocument :: "Fragment list \<Rightarrow> Fragment list \<Rightarrow> Fragment list \<Rightarrow> string" where
  "graphqlDocument standard noRelations deep =
     ''# THIS FILE HAS BEEN AUTO-GENERATED BY '' @ [CHR 0x22] @ ''graphql-cli-generate-fragments''
     @ [CHR 0x22] @ ''\<newline># DO NOT EDIT THIS FILE DIRECTLY\<newline>\<newline># Standard Fragments\<newline>''
     @ ''# Nested fragments will spread one layer deep\<newline>\<newline>''
     @ concat (map (\<lambda>f. ''\<newline>'' @ fragment f) standard)
     @ ''\<newline>\<newline># No Relational objects\<newline># No nested fragments\<newline>\<newline>''
     @ concat (map (\<lambda>f. ''\<newline>'' @ fragment f) noRelations)
     @ ''\<newline>\<newline># Deeply nested Fragments\<newline># Will include n nested fragments\<newline>''
     @ ''# If there is a recursive relation you will receive a\<newline># '' @ [CHR 0x22]
     @ ''Cannot spread fragment within itself'' @ [CHR 0x22] @ '' error when using\<newline>\<newline>''
     @ concat (map (\<lambda>f. ''\<newline>'' @ fragment f) deep)
     @ ''\<newline>''"

text \<open>The three arrays of lines 266-358, for the type names \<open>tns\<close>.\<close>

definition standardFragments :: "schema \<Rightarrow> string list \<Rightarrow> error + Fragment list" where
  "standardFragments ast tns =
     andThen (mapE (standardFragment ast) tns) (\<lambda>frags. Inr (nonNull frags))"

definition noRelationsFragments :: "schema \<Rightarrow> string list \<Rightarrow> error + Fragment list" where
  "noRelationsFragments ast tns =
     andThen (mapE (noRelationsFragment ast) tns) (\<lambda>frags. Inr (nonNull frags))"

definition deepFragments ::
  "schema \<Rightarrow> (string \<times> ModelConfig) list \<Rightarrow> string list \<Rightarrow> error + Fragment list" where
  "deepFragments ast modelConfigs tns =
     andThen (mapE (deepFragmentsOf ast modelConfigs) tns) (\<lambda>frags. Inr (flatten frags))"

text \<open>
  Lines 231-358, from the schema that \<^verbatim>\<open>buildASTSchema\<close> returned. \<^verbatim>\<open>Object.keys\<close> of an
  undefined \<^verbatim>\<open>modelConfigs\<close> (line 298) throws a TypeError.
\<close>

definition fragmentLists ::
  "(string list \<Rightarrow> string list) \<Rightarrow> schema \<Rightarrow> (string \<times> ModelConfig) list option
     \<Rightarrow> error + (Fragment list \<times> Fragment list \<times> Fragment list)" where
  "fragmentLists srt ast modelConfigs =
     andThen (typeNames srt ast) (\<lambda>tns.
     andThen (standardFragments ast tns) (\<lambda>standard.
     andThen (noRelationsFragments ast tns) (\<lambda>noRelations.
       case modelConfigs of
         None \<Rightarrow> Inl TypeError
       | Some mcs \<Rightarrow> andThen (deepFragments ast mcs tns) (\<lambda>deep. Inr (standard, noRelations, deep)))))"

text \<open>Lines 230-429: the arrays, then the rendering that the generator selects.\<close>

definition makeFragments ::
  "(string list \<Rightarrow> string list) \<Rightarrow> schema \<Rightarrow> string \<Rightarrow> (string \<times> ModelConfig) list option
     \<Rightarrow> error + Fragment list" where
  "makeFragments srt ast generator modelConfigs =
     andThen (fragmentLists srt ast modelConfigs) (\<lambda>(standard, noRelations, deep).
       if generator = ''js'' then
         Inr [\<lparr>name = ''*'', fragment = jsModule standard noRelations deep\<rparr>]
       else if generator = ''multi-file-graphql'' then Inr deep
       else Inr [\<lparr>name = ''*'', fragment = graphqlDocument standard noRelations deep\<rparr>])"

section \<open>processFragments\<close>

text \<open>
  Lines 172-209, from the point where the generator, the output path, the schema and
  the tier configuration have been determined. The file system is the list of the
  writes made, oldest first. Reading \<^verbatim>\<open>fragments[0].fragment\<close> of an empty array throws
  a TypeError.
\<close>

definition extensionOf :: "string \<Rightarrow> string" where
  "extensionOf generator =
     (let extension = ''js'';
          extension = (if generator = ''graphql'' then ''graphql'' else extension);
          extension = (if generator = ''multi-file-graphql'' then ''gql'' else extension)
      in extension)"

text \<open>\<^verbatim>\<open>outputPath.split('/').slice(0, -1).join('/')\<close>\<close>

definition basePathOf :: "string \<Rightarrow> string" where
  "basePathOf outputPath = rev (drop 1 (dropWhile (\<lambda>c. c \<noteq> CHR ''/'') (rev outputPath)))"

record processed =
  writes :: "(string \<times> string) list"
  outputTo :: string
  generatorUsed :: string

definition processFragments ::
  "(string list \<Rightarrow> string list) \<Rightarrow> string \<Rightarrow> string \<Rightarrow> schema
     \<Rightarrow> (string \<times> ModelConfig) list option \<Rightarrow> error + processed" where
  "processFragments srt generator outputPath ast modelConfigs =
     andThen (makeFragments srt ast generator modelConfigs) (\<lambda>fragments.
       if length fragments \<noteq> 0 \<and> name (hd fragments) \<noteq> ''*'' then
         Inr \<lparr>writes = map (\<lambda>f. (basePathOf outputPath @ ''/'' @ name f @ ''.''
                                    @ extensionOf generator, fragment f)) fragments,
              outputTo = basePathOf outputPath, generatorUsed = generator\<rparr>
       else (case fragments of
               [] \<Rightarrow> Inl TypeError
             | f # _ \<Rightarrow> Inr \<lparr>writes = [(outputPath, fragment f)],
                            outputTo = outputPath, generatorUsed = generator\<rparr>))"

section \<open>Example inputs\<close>

text \<open>
  A schema with a query root, three object types, and the introspection types that
  every built schema carries.
\<close>

definition blogSchema :: schema where
  "blogSchema =
     \<lparr>typeMap =
        [(''Query'', GraphQLObjectType
            [(''posts'', NonNullType (ListType (NonNullType (NamedType ''Post''))))]),
         (''Post'', GraphQLObjectType
            [(''id'', NonNullType (NamedType ''ID'')),
             (''title'', NonNullType (NamedType ''String'')),
             (''author'', NonNullType (NamedType ''User'')),
             (''comments'', NonNullType (ListType (NonNullType (NamedType ''Comment''))))]),
         (''ID'', GraphQLScalarType),
         (''String'', GraphQLScalarType),
         (''User'', GraphQLObjectType
            [(''id'', NonNullType (NamedType ''ID'')), (''name'', NamedType ''String'')]),
         (''Comment'', GraphQLObjectType
            [(''id'', NonNullType (NamedType ''ID'')), (''body'', NamedType ''String'')]),
         (''__Schema'', GraphQLObjectType
            [(''types'', NonNullType (ListType (NonNullType (NamedType ''__Type''))))]),
         (''__Type'', GraphQLObjectType [(''name'', NamedType ''String'')]),
         (''Boolean'', GraphQLScalarType)],
      queryType = Some ''Query'', mutationType = None, subscriptionType = None\<rparr>"

text \<open>A schema file that declares one enum and nothing else.\<close>

definition enumOnlySchema :: schema where
  "enumOnlySchema =
     \<lparr>typeMap =
        [(''Color'', GraphQLEnumType),
         (''__Schema'', GraphQLObjectType
            [(''types'', NonNullType (ListType (NonNullType (NamedType ''__Type''))))]),
         (''__Type'', GraphQLObjectType [(''name'', NamedType ''String'')]),
         (''String'', GraphQLScalarType),
         (''Boolean'', GraphQLScalarType)],
      queryType = None, mutationType = None, subscriptionType = None\<rparr>"

text \<open>A schema file that declares one object type and no query root.\<close>

definition querylessSchema :: schema where
  "querylessSchema =
     \<lparr>typeMap =
        [(''Post'', GraphQLObjectType [(''id'', NonNullType (NamedType ''ID''))]),
         (''ID'', GraphQLScalarType),
         (''__Type'', GraphQLObjectType [(''name'', NamedType ''String'')]),
         (''String'', GraphQLScalarType)],
      queryType = None, mutationType = None, subscriptionType = None\<rparr>"

text \<open>A schema whose only object type besides the query root has a field of a union type.\<close>

definition unionOnlySchema :: schema where
  "unionOnlySchema =
     \<lparr>typeMap =
        [(''Query'', GraphQLObjectType [(''search'', NamedType ''SearchResult'')]),
         (''Page'', GraphQLObjectType [(''results'', ListType (NamedType ''SearchResult''))]),
         (''SearchResult'', GraphQLUnionType),
         (''String'', GraphQLScalarType)],
      queryType = Some ''Query'', mutationType = None, subscriptionType = None\<rparr>"

text \<open>
  A schema with one object type whose only field has a union type, and one with a
  scalar field.
\<close>

definition searchSchema :: schema where
  "searchSchema =
     \<lparr>typeMap =
        [(''Query'', GraphQLObjectType [(''search'', NamedType ''SearchResult'')]),
         (''Page'', GraphQLObjectType [(''results'', ListType (NamedType ''SearchResult''))]),
         (''Tag'', GraphQLObjectType [(''label'', NamedType ''String'')]),
         (''SearchResult'', GraphQLUnionType),
         (''String'', GraphQLScalarType)],
      queryType = Some ''Query'', mutationType = None, subscriptionType = None\<rparr>"

text \<open>A tier configuration for the blog schema; \<^verbatim>\<open>Comment\<close> has no entry.\<close>

definition blogTiers :: "(string \<times> ModelConfig) list" where
  "blogTiers =
     [(''Post'', [(''PublicListing'', [''id'', ''title'']),
                  (''Public'', [''id'', ''title'', ''author'']),
                  (''Admin'', [''author''])]),
      (''User'', [(''PublicListing'', [''id'']), (''AdminListing'', [''id'', ''name''])])]"

text \<open>A schema with a type whose name is another type's name followed by \<^verbatim>\<open>Full\<close>.\<close>

definition imageSchema :: schema where
  "imageSchema =
     \<lparr>typeMap =
        [(''Query'', GraphQLObjectType [(''image'', NamedType ''Image'')]),
         (''Image'', GraphQLObjectType [(''url'', NonNullType (NamedType ''String''))]),
         (''ImageFull'', GraphQLObjectType [(''url'', NonNullType (NamedType ''String'')),
                                            (''bytes'', NamedType ''Int'')]),
         (''String'', GraphQLScalarType),
         (''Int'', GraphQLScalarType)],
      queryType = Some ''Query'', mutationType = None, subscriptionType = None\<rparr>"


text \<open>
  A schema with object types that refer to one another through the wrappings that
  \<^verbatim>\<open>printField\<close> resolves, and a tier configuration for two of its types.
\<close>

definition forumSchema :: schema where
  "forumSchema =
     \<lparr>typeMap =
        [(''Query'', GraphQLObjectType [(''threads'', ListType (NamedType ''Thread''))]),
         (''Thread'', GraphQLObjectType
            [(''id'', NonNullType (NamedType ''ID'')),
             (''title'', NonNullType (NamedType ''String'')),
             (''author'', NonNullType (NamedType ''User'')),
             (''comments'', ListType (NonNullType (NamedType ''Comment''))),
             (''tags'', NonNullType (ListType (NamedType ''Tag'')))]),
         (''User'', GraphQLObjectType
            [(''id'', NonNullType (NamedType ''ID'')),
             (''name'', NamedType ''String''),
             (''avatar'', NamedType ''Image'')]),
         (''Comment'', GraphQLObjectType
            [(''id'', NonNullType (NamedType ''ID'')),
             (''body'', NonNullType (NamedType ''String'')),
             (''author'', NonNullType (NamedType ''User'')),
             (''thread'', NamedType ''Thread'')]),
         (''Tag'', GraphQLObjectType [(''label'', NonNullType (NamedType ''String''))]),
         (''Image'', GraphQLObjectType [(''url'', NonNullType (NamedType ''String''))]),
         (''ID'', GraphQLScalarType),
         (''String'', GraphQLScalarType)],
      queryType = Some ''Query'', mutationType = None, subscriptionType = None\<rparr>"

definition forumTiers :: "(string \<times> ModelConfig) list" where
  "forumTiers =
     [(''Thread'', [(''PublicListing'', [''id'', ''title'']),
                    (''Public'', [''author'', ''comments'']),
                    (''AdminListing'', [''author'']),
                    (''Admin'', [''tags'', ''comments''])]),
      (''User'', [(''PublicListing'', [''id'']), (''AdminListing'', [''name'', ''avatar''])])]"


text \<open>A schema with a type whose name contains \<^verbatim>\<open>DeepNesting\<close>.\<close>

definition deepNestingSchema :: schema where
  "deepNestingSchema =
     \<lparr>typeMap =
        [(''Query'', GraphQLObjectType [(''things'', ListType (NamedType ''DeepNestingThing''))]),
         (''DeepNestingThing'', GraphQLObjectType [(''id'', NonNullType (NamedType ''ID''))]),
         (''ID'', GraphQLScalarType)],
      queryType = Some ''Query'', mutationType = None, subscriptionType = None\<rparr>"

text \<open>A schema with a type whose fields are a scalar and a non-null list of non-null scalars.\<close>

definition labelSchema :: schema where
  "labelSchema =
     \<lparr>typeMap =
        [(''Query'', GraphQLObjectType [(''labels'', ListType (NamedType ''Label''))]),
         (''Label'', GraphQLObjectType
            [(''text'', NonNullType (NamedType ''String'')),
             (''aliases'', NonNullType (ListType (NonNullType (NamedType ''String''))))]),
         (''String'', GraphQLScalarType)],
      queryType = Some ''Query'', mutationType = None, subscriptionType = None\<rparr>"

text \<open>A schema whose only object type besides the query root is named as a tier label is.\<close>

definition adminSchema :: schema where
  "adminSchema =
     \<lparr>typeMap =
        [(''Query'', GraphQLObjectType [(''admin'', NamedType ''Admin'')]),
         (''Admin'', GraphQLObjectType [(''login'', NonNullType (NamedType ''String''))]),
         (''String'', GraphQLScalarType)],
      queryType = Some ''Query'', mutationType = None, subscriptionType = None\<rparr>"

section \<open>The deep fragments in the words of the specification\<close>

text \<open>
  The specification describes the deep fragments by their content: the fields kept,
  and for a field that refers to an object type the fragment that its spread names.
  A printable deep field is a scalar or enum field, or a relation with its target
  type; \<open>deepSelections\<close> lists those of a type, by the classification of lines
  450-482 and the target name of lines 495-497.
\<close>

datatype selection = Scalar string | Relation string string

fun selName :: "selection \<Rightarrow> string" where
  "selName (Scalar f) = f"
| "selName (Relation f target) = f"

definition deepSelection :: "schema \<Rightarrow> string \<times> typeNode \<Rightarrow> error + selection option" where
  "deepSelection ast fd =
     andThen (classifyField ast (fst fd) (snd fd)) (\<lambda>(field2, c2).
       if c2 = Some ''GraphQLScalarType'' \<or> c2 = Some ''GraphQLEnumType''
       then Inr (Some (Scalar (fst fd)))
       else if c2 = Some ''GraphQLObjectType''
       then andThen (typeNameOf field2) (\<lambda>target. Inr (Some (Relation (fst fd) target)))
       else Inr None)"

definition deepSelections :: "schema \<Rightarrow> (string \<times> typeNode) list \<Rightarrow> error + selection list" where
  "deepSelections ast fieldDefs =
     andThen (mapE (deepSelection ast) fieldDefs) (\<lambda>sels. Inr (nonNull sels))"

text \<open>
  Section 4.4. The leading spread of a sibling tier; the fragment that the spread of a
  relation names after the rewriting (the target's \<^verbatim>\<open>AdminListing\<close> or \<^verbatim>\<open>PublicListing\<close>
  fragment, by whether the label contains \<^verbatim>\<open>Admin\<close>, when the target has a key in the
  tier configuration, its \<^verbatim>\<open>Full\<close> fragment otherwise); the line of a field; the lines,
  each on a line of its own with one indent; the text of the fragment of a label.
  Nothing here is found by rewriting a text.
\<close>

definition specLeadingSpread :: "string \<Rightarrow> string \<Rightarrow> string" where
  "specLeadingSpread typeName label =
     (if label = ''Admin'' then ''...'' @ typeName @ ''AdminListing\<newline>  ''
      else if label = ''AdminListing'' \<or> label = ''Public''
        then ''...'' @ typeName @ ''PublicListing\<newline>  ''
      else [])"

definition specSpread :: "string list \<Rightarrow> string \<Rightarrow> string \<Rightarrow> string" where
  "specSpread keys label target =
     (if target \<in> set keys
      then (if sublist ''Admin'' label then target @ ''AdminListing'' else target @ ''PublicListing'')
      else target @ ''Full'')"

fun specLine :: "(string \<Rightarrow> string) \<Rightarrow> selection \<Rightarrow> string" where
  "specLine spread (Scalar f) = f"
| "specLine spread (Relation f target) = f @ '' {\<newline>    ...'' @ spread target @ ''\<newline>  }''"

fun specLines :: "string list \<Rightarrow> string" where
  "specLines [] = []"
| "specLines (l # ls) = l @ concat (map (\<lambda>x. ''\<newline>  '' @ x) ls)"

definition specDeepText :: "(string \<Rightarrow> string) \<Rightarrow> string \<Rightarrow> string \<Rightarrow> selection list \<Rightarrow> string" where
  "specDeepText spread typeName label sels =
     ''fragment '' @ typeName @ label @ '' on '' @ typeName @ '' {\<newline>  ''
     @ specLeadingSpread typeName label
     @ specLines (map (specLine spread) sels) @ ''\<newline>}''"

definition specTierFragment ::
  "string list \<Rightarrow> string \<Rightarrow> selection list \<Rightarrow> string \<times> string list \<Rightarrow> Fragment" where
  "specTierFragment keys typeName sels tier =
     (case tier of (label, allowlist) \<Rightarrow>
        \<lparr>name = typeName @ label,
         fragment = specDeepText (specSpread keys label) typeName label
                      (filter (\<lambda>s. selName s \<in> set allowlist) sels)\<rparr>)"

text \<open>
  The fragment of a type without an entry: all deep fields, no leading spread, and the
  spreads of a tier whose label does not contain \<^verbatim>\<open>Admin\<close>.
\<close>

definition specFullFragment :: "string list \<Rightarrow> string \<Rightarrow> selection list \<Rightarrow> Fragment" where
  "specFullFragment keys typeName sels =
     \<lparr>name = typeName @ ''Full'',
      fragment = specDeepText (specSpread keys ''Full'') typeName ''Full'' sels\<rparr>"

text \<open>
  The deep fragments of one type: none without a printable deep field, the tier
  fragments in the order of the entry's labels, or the \<^verbatim>\<open>Full\<close> fragment.
\<close>

definition specDeepFragmentsOf ::
  "schema \<Rightarrow> (string \<times> ModelConfig) list \<Rightarrow> string \<Rightarrow> Fragment list" where
  "specDeepFragmentsOf ast modelConfigs typeName =
     (case getType ast typeName of
        Some (GraphQLObjectType fieldDefs) \<Rightarrow>
          (case deepSelections ast fieldDefs of
             Inr sels \<Rightarrow>
               if sels = [] then []
               else (case modelConfigOf modelConfigs typeName of
                       Some entry \<Rightarrow> map (specTierFragment (map fst modelConfigs) typeName sels) entry
                     | None \<Rightarrow> [specFullFragment (map fst modelConfigs) typeName sels])
           | Inl e \<Rightarrow> [])
      | _ \<Rightarrow> [])"

section \<open>Notions used by the properties\<close>

text \<open>A GraphQL name: letters, digits and underscores.\<close>

definition nameChars :: string where
  "nameChars = ''_0123456789ABCDEFGHIJKLMNOPQRSTUVWXYZabcdefghijklmnopqrstuvwxyz''"

definition isName :: "string \<Rightarrow> bool" where
  "isName n = (n \<noteq> [] \<and> list_all (\<lambda>c. c \<in> set nameChars) n)"

text \<open>
  The regular expressions of lines 329, 335 and 350 are built from the keys of the tier
  configuration. A key that is a GraphQL name puts no metacharacter into the
  expression, which then matches its own text, as \<open>replaceAll\<close> does; every property
  of a rewritten text below has this as a hypothesis.
\<close>

definition keysAreNames :: "(string \<times> ModelConfig) list \<Rightarrow> bool" where
  "keysAreNames modelConfigs = list_all isName (map fst modelConfigs)"

text \<open>
  Names and labels that the rewriting leaves alone: a name that does not contain
  \<^verbatim>\<open>DeepNesting\<close>; a selection of such names; a label of name characters that gives a
  fragment name without \<^verbatim>\<open>DeepNesting\<close>.
\<close>

definition plainName :: "string \<Rightarrow> bool" where
  "plainName n = (isName n \<and> \<not> includesStr ''DeepNesting'' n)"

fun plainSelection :: "selection \<Rightarrow> bool" where
  "plainSelection (Scalar f) = plainName f"
| "plainSelection (Relation f target) = (plainName f \<and> plainName target)"

definition plainLabel :: "string \<Rightarrow> string \<Rightarrow> bool" where
  "plainLabel typeName label =
     (list_all (\<lambda>c. c \<in> set nameChars) label \<and> \<not> includesStr ''DeepNesting'' (typeName @ label))"

text \<open>A type whose name, deep fields with their targets, and tier labels are plain.\<close>

definition plainType :: "schema \<Rightarrow> (string \<times> ModelConfig) list \<Rightarrow> string \<Rightarrow> bool" where
  "plainType ast modelConfigs typeName =
     (plainName typeName
      \<and> (case getType ast typeName of
           Some (GraphQLObjectType fieldDefs) \<Rightarrow>
             (case deepSelections ast fieldDefs of
                Inr sels \<Rightarrow> list_all plainSelection sels
              | Inl e \<Rightarrow> True)
         | _ \<Rightarrow> True)
      \<and> (case modelConfigOf modelConfigs typeName of
           Some entry \<Rightarrow> list_all (\<lambda>tier. plainLabel typeName (fst tier)) entry
         | None \<Rightarrow> True))"

text \<open>
  The spread of a relation while the loops of lines 327-336 and 348-351 run: rewritten
  for the keys already seen.
\<close>

definition spreadAfter :: "string list \<Rightarrow> string \<Rightarrow> string \<Rightarrow> string" where
  "spreadAfter seen listing target =
     (if target \<in> set seen then target @ listing else target @ ''DeepNesting'')"

text \<open>A fragment whose text contains \<^verbatim>\<open>DeepNesting\<close>.\<close>

definition mentionsDeepNesting :: "Fragment \<Rightarrow> bool" where
  "mentionsDeepNesting f = includesStr ''DeepNesting'' (fragment f)"

text \<open>A field that the classification of lines 450-482 resolves to an object type.\<close>

definition relationField :: "schema \<Rightarrow> string \<times> typeNode \<Rightarrow> bool" where
  "relationField ast f =
     (case classifyField ast (fst f) (snd f) of
        Inr (field, Some c) \<Rightarrow> c = ''GraphQLObjectType''
      | _ \<Rightarrow> False)"

text \<open>A field that it resolves to a scalar or an enum.\<close>

definition scalarOrEnumField :: "schema \<Rightarrow> string \<times> typeNode \<Rightarrow> bool" where
  "scalarOrEnumField ast f =
     (case classifyField ast (fst f) (snd f) of
        Inr (field, Some c) \<Rightarrow> c = ''GraphQLScalarType'' \<or> c = ''GraphQLEnumType''
      | _ \<Rightarrow> False)"

text \<open>A field whose classification ends without an error.\<close>

definition classifiedField :: "schema \<Rightarrow> string \<times> typeNode \<Rightarrow> bool" where
  "classifiedField ast f = (\<not> isl (classifyField ast (fst f) (snd f)))"

text \<open>
  What follows \<^verbatim>\<open>fragment <TypeName><suffix>\<close> in a fragment text: two texts are identical
  aside from the name suffix when this is the same for both.
\<close>

definition afterHeader :: "string \<Rightarrow> string \<Rightarrow> string \<Rightarrow> string option" where
  "afterHeader typeName sfx text =
     (if prefix (''fragment '' @ typeName @ sfx) text
      then Some (drop (length (''fragment '' @ typeName @ sfx)) text) else None)"

text \<open>The part of a fragment text after the name, up to the closing brace.\<close>

definition selectionOf :: "string \<Rightarrow> string list \<Rightarrow> string" where
  "selectionOf typeName fieldNames =
     '' on '' @ typeName @ '' {\<newline>  '' @ join (indentedLine 1) fieldNames @ ''\<newline>}''"

text \<open>The name in a fragment text: the token after \<^verbatim>\<open>fragment\<close>.\<close>

definition definitionName :: "string \<Rightarrow> string" where
  "definitionName text = takeWhile (\<lambda>c. c \<noteq> CHR '' '') (drop (length ''fragment '') text)"

text \<open>The names of all fragment definitions of one run, in the order of the three arrays.\<close>

definition emittedNames ::
  "(string list \<Rightarrow> string list) \<Rightarrow> schema \<Rightarrow> (string \<times> ModelConfig) list option
     \<Rightarrow> error + string list" where
  "emittedNames srt ast modelConfigs =
     andThen (fragmentLists srt ast modelConfigs) (\<lambda>(standard, noRelations, deep).
       Inr (map (\<lambda>f. definitionName (fragment f)) (standard @ noRelations @ deep)))"

text \<open>The tier labels of \<^verbatim>\<open>ModelFragmentType\<close> (line 33), and every suffix a name can get.\<close>

definition tierLabels :: "string list" where
  "tierLabels = [''PublicListing'', ''Public'', ''AdminListing'', ''Admin'']"

definition nameSuffixes :: "string list" where
  "nameSuffixes = [''NoNesting'', ''Full''] @ tierLabels"

text \<open>The suffixes of the deep fragments that a type contributes.\<close>

definition deepLabels :: "schema \<Rightarrow> (string \<times> ModelConfig) list \<Rightarrow> string \<Rightarrow> string list" where
  "deepLabels ast modelConfigs n =
     (if deepFragmentsOf ast modelConfigs n = Inr None then []
      else (case modelConfigOf modelConfigs n of
              Some entry \<Rightarrow> map fst entry
            | None \<Rightarrow> [''Full'']))"

section \<open>Properties\<close>

subsection \<open>No tier configuration\<close>

lemma makeFragments_without_modelConfigs:
  "isl (makeFragments srt ast generator None)"
  by (simp add: makeFragments_def fragmentLists_def andThen_def split: sum.splits)

text \<open>
  Claim C1 says that a run without a tier configuration completes and gives every
  object type with deep fields one fragment named after the type with \<^verbatim>\<open>Full\<close>. The
  code reads \<^verbatim>\<open>Object.keys(modelConfigs)\<close> before it tests \<^verbatim>\<open>modelConfigs\<close>: on the blog schema
  without a tier configuration the run ends in a TypeError (and so it does on every
  schema, by \<open>makeFragments_without_modelConfigs\<close>).
\<close>

theorem makeFragments_blog_without_modelConfigs:
  "makeFragments (\<lambda>ns. ns) blogSchema ''graphql'' None = Inl TypeError"
  by code_simp

subsection \<open>A list of non-null objects\<close>

lemma printField_nonNull_list_of_nonNull:
  "printField ast fieldName (NonNullType (ListType (NonNullType t))) ft indent = Inr None"
  by (simp add: printField_def classifyField_def andThen_def ctorOrNull_def)

text \<open>
  Claim C2 says that a field of type \<^verbatim>\<open>[Comment!]!\<close> is printed as a field of type
  \<^verbatim>\<open>Comment\<close> is. The code unwraps at most two wrappers after a leading non-null: the
  field \<^verbatim>\<open>comments: [Comment!]!\<close> is left out in the Default and the Deep mode, where the
  plain field gives the nested spread.
\<close>

theorem printField_comments_omitted:
  "printField blogSchema ''comments''
     (NonNullType (ListType (NonNullType (NamedType ''Comment'')))) DEFAULT 1 = Inr None
   \<and> printField blogSchema ''comments'' (NamedType ''Comment'') DEFAULT 1
       = Inr (Some ''comments {\<newline>    ...CommentNoNesting\<newline>  }'')
   \<and> printField blogSchema ''comments''
       (NonNullType (ListType (NonNullType (NamedType ''Comment'')))) DEEP 1 = Inr None
   \<and> printField blogSchema ''comments'' (NamedType ''Comment'') DEEP 1
       = Inr (Some ''comments {\<newline>    ...CommentDeepNesting\<newline>  }'')"
  by code_simp

subsection \<open>A schema without a query root\<close>

lemma typeNames_no_query:
  assumes "queryType ast = None" and "candidateNames ast \<noteq> []"
  shows "typeNames srt ast = Inl TypeError"
  using assms by (simp add: typeNames_def andThen_def)

text \<open>
  Claim C9 as stated, that generation fails for every schema without a query root,
  does not hold: the name of the query type is read inside a filter callback, which
  never runs when the schema has no object type outside the introspection types.
\<close>

theorem enum_only_schema_generates:
  "queryType enumOnlySchema = None
   \<and> makeFragments (\<lambda>ns. ns) enumOnlySchema ''graphql'' (Some [])
       = Inr [\<lparr>name = ''*'', fragment = graphqlDocument [] [] []\<rparr>]"
  by code_simp

text \<open>
  Claim C9, amended: for every schema that has no query root and has an object type
  whose name does not start with two underscores, generation fails with a TypeError,
  whatever the generator and the tier configuration.
\<close>

theorem no_query_type_fails:
  assumes "queryType ast = None"
    and "n \<in> set (map fst (typeMap ast))"
    and "isObjectTypeName ast n"
    and "\<not> prefix ''__'' n"
  shows "makeFragments srt ast generator modelConfigs = Inl TypeError"
proof -
  have "n \<in> set (candidateNames ast)"
    using assms(2-4) by (auto simp: candidateNames_def isObjectTypeName_def split: option.splits)
  then have "candidateNames ast \<noteq> []"
    by auto
  then show ?thesis
    using assms(1) by (simp add: makeFragments_def fragmentLists_def typeNames_no_query andThen_def)
qed

theorem no_query_type_fails_witness:
  "queryType querylessSchema = None
   \<and> ''Post'' \<in> set (map fst (typeMap querylessSchema))
   \<and> isObjectTypeName querylessSchema ''Post''
   \<and> \<not> prefix ''__'' ''Post''
   \<and> makeFragments (\<lambda>ns. ns) querylessSchema ''graphql'' (Some []) = Inl TypeError"
proof -
  have h1: "queryType querylessSchema = None"
    by (simp add: querylessSchema_def)
  have h2: "''Post'' \<in> set (map fst (typeMap querylessSchema))"
    by (simp add: querylessSchema_def)
  have h3: "isObjectTypeName querylessSchema ''Post''"
    by (simp add: querylessSchema_def isObjectTypeName_def getType_def)
  have h4: "\<not> prefix ''__'' ''Post''"
    by simp
  show ?thesis
    using h1 h2 h3 h4 no_query_type_fails [OF h1 h2 h3 h4] by blast
qed

subsection \<open>An empty fragment list\<close>

text \<open>
  Claim C10: when \<^verbatim>\<open>makeFragments\<close> returns an empty list, \<^verbatim>\<open>processFragments\<close> takes the
  single-file branch, reads the first element of the empty list and fails; nothing
  is written.
\<close>

theorem processFragments_empty_fails:
  assumes "makeFragments srt ast generator modelConfigs = Inr []"
  shows "processFragments srt generator outputPath ast modelConfigs = Inl TypeError"
  using assms by (simp add: processFragments_def andThen_def)

theorem processFragments_empty_fails_witness:
  "makeFragments (\<lambda>ns. ns) unionOnlySchema ''multi-file-graphql'' (Some []) = Inr []
   \<and> processFragments (\<lambda>ns. ns) ''multi-file-graphql'' ''out/app.fragments.gql''
       unionOnlySchema (Some []) = Inl TypeError"
proof -
  have h: "makeFragments (\<lambda>ns. ns) unionOnlySchema ''multi-file-graphql'' (Some []) = Inr []"
    by code_simp
  show ?thesis
    using h processFragments_empty_fails [OF h] by simp
qed

subsection \<open>Types without printable fields\<close>

lemma nonNull_Cons_cong: "nonNull xs = nonNull ys \<Longrightarrow> nonNull (x # xs) = nonNull (x # ys)"
  by (cases x) simp_all

lemma flatten_Cons_cong: "flatten xs = flatten ys \<Longrightarrow> flatten (x # xs) = flatten (x # ys)"
  by (cases x) simp_all

lemma mapE_skip_nonNull:
  assumes "f t = Inr None"
  shows "andThen (mapE f (xs @ t # ys)) (\<lambda>r. Inr (nonNull r))
           = andThen (mapE f (xs @ ys)) (\<lambda>r. Inr (nonNull r))"
  using assms
  by (induction xs) (auto simp: andThen_def intro: nonNull_Cons_cong split: sum.splits)

lemma mapE_skip_flatten:
  assumes "f t = Inr None"
  shows "andThen (mapE f (xs @ t # ys)) (\<lambda>r. Inr (flatten r))
           = andThen (mapE f (xs @ ys)) (\<lambda>r. Inr (flatten r))"
  using assms
  by (induction xs) (auto simp: andThen_def intro: flatten_Cons_cong split: sum.splits)

lemma mapE_Inr_member:
  "mapE f xs = Inr ys \<Longrightarrow> y \<in> set ys \<Longrightarrow> \<exists>x \<in> set xs. f x = Inr y"
  by (induction xs arbitrary: ys) (auto simp: andThen_def split: sum.splits)

lemma flatten_member:
  "y \<in> set (flatten subs) \<Longrightarrow> \<exists>sub. Some sub \<in> set subs \<and> y \<in> set sub"
  by (induction subs rule: flatten.induct) auto

lemma standardFragments_skip:
  assumes "getType ast typeName = Some ty" and "generateFragments ty ast DEFAULT = Inr []"
  shows "standardFragment ast typeName = Inr None"
    and "standardFragments ast (before @ typeName # after) = standardFragments ast (before @ after)"
proof -
  show s: "standardFragment ast typeName = Inr None"
    using assms by (simp add: standardFragment_def andThen_def)
  show "standardFragments ast (before @ typeName # after) = standardFragments ast (before @ after)"
    unfolding standardFragments_def
    by (rule mapE_skip_nonNull [where f = "standardFragment ast" and t = typeName, OF s])
qed

lemma noRelationsFragments_skip:
  assumes "getType ast typeName = Some ty" and "generateFragments ty ast NO_RELATIONS = Inr []"
  shows "noRelationsFragment ast typeName = Inr None"
    and "noRelationsFragments ast (before @ typeName # after)
           = noRelationsFragments ast (before @ after)"
proof -
  show s: "noRelationsFragment ast typeName = Inr None"
    using assms by (simp add: noRelationsFragment_def andThen_def)
  show "noRelationsFragments ast (before @ typeName # after)
          = noRelationsFragments ast (before @ after)"
    unfolding noRelationsFragments_def
    by (rule mapE_skip_nonNull [where f = "noRelationsFragment ast" and t = typeName, OF s])
qed

lemma deepFragments_skip:
  assumes "getType ast typeName = Some ty" and "generateFragments ty ast DEEP = Inr []"
  shows "deepFragmentsOf ast modelConfigs typeName = Inr None"
    and "deepFragments ast modelConfigs (before @ typeName # after)
           = deepFragments ast modelConfigs (before @ after)"
proof -
  show s: "deepFragmentsOf ast modelConfigs typeName = Inr None"
    using assms by (simp add: deepFragmentsOf_def andThen_def)
  show "deepFragments ast modelConfigs (before @ typeName # after)
          = deepFragments ast modelConfigs (before @ after)"
    unfolding deepFragments_def
    by (rule mapE_skip_flatten [where f = "deepFragmentsOf ast modelConfigs" and t = typeName, OF s])
qed

text \<open>
  Claim C7: for an object type and each of the three modes, if the list of printed
  fields is empty then the callback for the type returns nothing, and the array of
  fragments for that mode is what it would be without the type: no fragment is
  emitted for the pair.
\<close>

theorem empty_field_list_emits_nothing:
  assumes "getType ast typeName = Some ty"
  shows "(generateFragments ty ast DEFAULT = Inr [] \<longrightarrow>
            standardFragment ast typeName = Inr None \<and>
            standardFragments ast (before @ typeName # after)
              = standardFragments ast (before @ after))
       \<and> (generateFragments ty ast NO_RELATIONS = Inr [] \<longrightarrow>
            noRelationsFragment ast typeName = Inr None \<and>
            noRelationsFragments ast (before @ typeName # after)
              = noRelationsFragments ast (before @ after))
       \<and> (generateFragments ty ast DEEP = Inr [] \<longrightarrow>
            deepFragmentsOf ast modelConfigs typeName = Inr None \<and>
            deepFragments ast modelConfigs (before @ typeName # after)
              = deepFragments ast modelConfigs (before @ after))"
  using standardFragments_skip [OF assms] noRelationsFragments_skip [OF assms]
    deepFragments_skip [OF assms]
  by blast

theorem empty_field_list_emits_nothing_witness:
  "getType searchSchema ''Page''
     = Some (GraphQLObjectType [(''results'', ListType (NamedType ''SearchResult''))])
   \<and> generateFragments (GraphQLObjectType [(''results'', ListType (NamedType ''SearchResult''))])
         searchSchema DEFAULT = Inr []
   \<and> generateFragments (GraphQLObjectType [(''results'', ListType (NamedType ''SearchResult''))])
         searchSchema NO_RELATIONS = Inr []
   \<and> generateFragments (GraphQLObjectType [(''results'', ListType (NamedType ''SearchResult''))])
         searchSchema DEEP = Inr []
   \<and> standardFragment searchSchema ''Page'' = Inr None
   \<and> standardFragments searchSchema ([] @ ''Page'' # [''Tag''])
       = standardFragments searchSchema ([] @ [''Tag''])
   \<and> noRelationsFragment searchSchema ''Page'' = Inr None
   \<and> noRelationsFragments searchSchema ([] @ ''Page'' # [''Tag''])
       = noRelationsFragments searchSchema ([] @ [''Tag''])
   \<and> deepFragmentsOf searchSchema [] ''Page'' = Inr None
   \<and> deepFragments searchSchema [] ([] @ ''Page'' # [''Tag''])
       = deepFragments searchSchema [] ([] @ [''Tag''])"
proof -
  let ?ty = "GraphQLObjectType [(''results'', ListType (NamedType ''SearchResult''))]"
  have t: "getType searchSchema ''Page'' = Some ?ty"
    by (simp add: searchSchema_def getType_def)
  have g1: "generateFragments ?ty searchSchema DEFAULT = Inr []"
    by code_simp
  have g2: "generateFragments ?ty searchSchema NO_RELATIONS = Inr []"
    by code_simp
  have g3: "generateFragments ?ty searchSchema DEEP = Inr []"
    by code_simp
  show ?thesis
    using t g1 g2 g3
      empty_field_list_emits_nothing [OF t, of "[]" "[''Tag'']" "[]"]
    by blast
qed

subsection \<open>Strings\<close>

lemma includesStr_sublist: "includesStr p s = sublist p s"
  by (induction s) (simp_all add: sublist_Cons_right)

lemma isName_chars:
  assumes "isName n"
  shows "CHR '' '' \<notin> set n" and "CHR ''.'' \<notin> set n" and "CHR 0x0A \<notin> set n"
proof -
  have sub: "set n \<subseteq> set nameChars"
    using assms by (auto simp: isName_def list_all_iff)
  have "CHR '' '' \<notin> set nameChars" and "CHR ''.'' \<notin> set nameChars" and "CHR 0x0A \<notin> set nameChars"
    by (simp_all add: nameChars_def)
  with sub show "CHR '' '' \<notin> set n" and "CHR ''.'' \<notin> set n" and "CHR 0x0A \<notin> set n"
    by blast+
qed

lemma prefix_append_sep:
  assumes "c \<notin> set p"
  shows "prefix p (a @ c # b) = prefix p a"
proof
  assume "prefix p (a @ c # b)"
  then consider "prefix p a" | us where "p = a @ us" and "prefix us (c # b)"
    by (auto simp: prefix_append)
  then show "prefix p a"
  proof cases
    case 1
    then show ?thesis .
  next
    case 2
    with assms have "us = []"
      by (cases us) auto
    with 2 show ?thesis
      by simp
  qed
next
  assume "prefix p a"
  then show "prefix p (a @ c # b)"
    by (rule prefix_prefix)
qed

lemma includesStr_sep:
  assumes "c \<notin> set p"
  shows "includesStr p (a @ c # b) = (includesStr p a \<or> includesStr p b)"
proof (induction a)
  case Nil
  have "prefix p (c # b) = (p = [])"
    using assms by (cases p) auto
  moreover have "p = [] \<Longrightarrow> includesStr p b"
    by (cases b) auto
  ultimately show ?case
    by auto
next
  case (Cons x a)
  have "prefix p (x # a @ c # b) = prefix p (x # a)"
    using prefix_append_sep [OF assms, of "x # a" b] by simp
  with Cons show ?case
    by auto
qed

lemma replaceAll_head:
  assumes "p \<noteq> []" and "hd p \<notin> set a"
  shows "replaceAll p r (a @ b) = a @ replaceAll p r b"
  using assms
proof (induction a)
  case Nil
  show ?case by simp
next
  case (Cons x a)
  then have "\<not> prefix p (x # a @ b)"
    by (cases p) auto
  with Cons show ?case
    by (simp add: replaceAll.simps(2))
qed

lemma replaceAll_sep:
  assumes "c \<notin> set p" and "\<not> includesStr p a"
  shows "replaceAll p r (a @ c # b) = a @ c # replaceAll p r b"
  using assms(2)
proof (induction a)
  case Nil
  show ?case
    using assms(1) by (cases p) (auto simp: replaceAll.simps(2))
next
  case (Cons x a)
  then have np: "\<not> prefix p (x # a)" and ni: "\<not> includesStr p a"
    by simp_all
  have "prefix p (x # a @ c # b) = prefix p (x # a)"
    using prefix_append_sep [OF assms(1), of "x # a" b] by simp
  with np have "\<not> prefix p (x # a @ c # b)"
    by simp
  with Cons.IH [OF ni] show ?case
    by (simp add: replaceAll.simps(2))
qed

lemma replaceAll_no_match:
  assumes "\<not> prefix p (c # cs)"
  shows "replaceAll p r (c # cs) = c # replaceAll p r cs"
  using assms by (simp add: replaceAll.simps(2))

lemma replaceAll_match:
  assumes "p \<noteq> []"
  shows "replaceAll p r (p @ b) = r @ replaceAll p r b"
proof -
  obtain c cs where p: "p = c # cs"
    using assms by (cases p) auto
  show ?thesis
    unfolding p by (simp add: replaceAll.simps(2))
qed

lemma takeWhile_sep:
  assumes "c \<notin> set a"
  shows "takeWhile (\<lambda>x. x \<noteq> c) (a @ c # b) = a"
  using assms by (induction a) auto

text \<open>\<^verbatim>\<open>DeepNesting\<close> does not overlap itself.\<close>

lemma prefix_of_shifted:
  assumes "prefix d (y @ d @ b)"
  shows "prefix d y \<or> (\<exists>us. d = y @ us \<and> prefix us (d @ b))"
  using assms by (simp add: prefix_append)

lemma DeepNesting_border:
  assumes "prefix ''DeepNesting'' (y @ ''DeepNesting'' @ b)"
  shows "y = [] \<or> includesStr ''DeepNesting'' y"
proof -
  from prefix_of_shifted [OF assms] consider "prefix ''DeepNesting'' y"
    | us where "''DeepNesting'' = y @ us" and "prefix us (''DeepNesting'' @ b)"
    by blast
  then show ?thesis
  proof cases
    case 1
    then show ?thesis
      by (simp add: includesStr_sublist)
  next
    case 2
    then show ?thesis
      by (auto simp: Cons_eq_append_conv includesStr_sublist)
  qed
qed

lemma DeepNesting_word:
  assumes "\<not> includesStr ''DeepNesting'' t"
  shows "prefix (k @ ''DeepNesting'') (t @ ''DeepNesting'') = (k = t)"
proof
  assume "prefix (k @ ''DeepNesting'') (t @ ''DeepNesting'')"
  then obtain z where "t @ ''DeepNesting'' = k @ ''DeepNesting'' @ z"
    by (auto simp: prefix_def)
  then consider us where "t = k @ us" and "us @ ''DeepNesting'' = ''DeepNesting'' @ z"
    | us where "t @ us = k" and "''DeepNesting'' = us @ ''DeepNesting'' @ z"
    by (auto simp: append_eq_append_conv2)
  then show "k = t"
  proof cases
    case 1
    then have "prefix ''DeepNesting'' (us @ ''DeepNesting'' @ [])"
      by (simp add: prefix_def)
    from DeepNesting_border [OF this] have "us = [] \<or> includesStr ''DeepNesting'' us" .
    moreover have "\<not> includesStr ''DeepNesting'' us"
      using assms 1(1) by (auto simp: includesStr_sublist sublist_append)
    ultimately show ?thesis
      using 1(1) by simp
  next
    case 2
    from 2(2) have "length us + length z = 0"
      using arg_cong [OF 2(2), of length] by simp
    with 2(1) show ?thesis
      by simp
  qed
next
  assume "k = t"
  then show "prefix (k @ ''DeepNesting'') (t @ ''DeepNesting'')"
    by simp
qed

subsection \<open>One pass of the rewriting\<close>

lemma not_prefix_dot:
  assumes "CHR ''.'' \<notin> set w"
  shows "\<not> prefix (CHR ''.'' # q) (w @ CHR 0x0A # b)"
  using assms by (cases w) auto

lemma spread_pass:
  assumes k: "CHR 0x0A \<notin> set k" and w: "CHR ''.'' \<notin> set w"
    and c: "prefix (k @ ''DeepNesting'') w \<Longrightarrow> w = k @ ''DeepNesting''"
  shows "replaceAll (''...'' @ k @ ''DeepNesting'') (''...'' @ k @ listing)
           (''...'' @ w @ CHR 0x0A # b)
         = ''...'' @ (if w = k @ ''DeepNesting'' then k @ listing else w) @ CHR 0x0A
             # replaceAll (''...'' @ k @ ''DeepNesting'') (''...'' @ k @ listing) b"
proof -
  let ?p = "''...'' @ k @ ''DeepNesting''"
  let ?r = "''...'' @ k @ listing"
  have nl: "replaceAll ?p ?r (CHR 0x0A # x) = CHR 0x0A # replaceAll ?p ?r x" for x
    using replaceAll_head [of ?p "[CHR 0x0A]" ?r x] by simp
  show ?thesis
  proof (cases "w = k @ ''DeepNesting''")
    case True
    have "replaceAll ?p ?r (?p @ CHR 0x0A # b) = ?r @ replaceAll ?p ?r (CHR 0x0A # b)"
      by (rule replaceAll_match) simp
    with True nl show ?thesis
      by simp
  next
    case False
    with c have "\<not> prefix (k @ ''DeepNesting'') w"
      by blast
    moreover have "CHR 0x0A \<notin> set (k @ ''DeepNesting'')"
      using k by simp
    ultimately have n0: "\<not> prefix (k @ ''DeepNesting'') (w @ CHR 0x0A # b)"
      by (simp add: prefix_append_sep)
    have n1: "\<not> prefix (CHR ''.'' # k @ ''DeepNesting'') (w @ CHR 0x0A # b)"
      by (rule not_prefix_dot [OF w])
    have n2: "\<not> prefix (CHR ''.'' # CHR ''.'' # k @ ''DeepNesting'') (w @ CHR 0x0A # b)"
      by (rule not_prefix_dot [OF w])
    have "replaceAll ?p ?r (w @ CHR 0x0A # b) = (w @ [CHR 0x0A]) @ replaceAll ?p ?r b"
      using replaceAll_head [of ?p "w @ [CHR 0x0A]" ?r b] w by simp
    with False n0 n1 n2 show ?thesis
      by (simp add: replaceAll.simps(2))
  qed
qed

text \<open>The word after the dots of a spread, and what a pass makes of it.\<close>

lemma prefix_tail_sublist: "prefix (k @ d) s \<Longrightarrow> sublist d s"
  by (auto simp: prefix_def)

lemma plain_listing:
  assumes "\<not> includesStr ''DeepNesting'' t" and "listing = ''PublicListing'' \<or> listing = ''AdminListing''"
  shows "\<not> includesStr ''DeepNesting'' (t @ listing)"
  using assms by (auto simp: includesStr_sep)

lemma spreadAfter_word:
  assumes "\<not> includesStr ''DeepNesting'' t"
    and "listing = ''PublicListing'' \<or> listing = ''AdminListing''"
  shows "prefix (k @ ''DeepNesting'') (spreadAfter seen listing t)
           \<Longrightarrow> spreadAfter seen listing t = k @ ''DeepNesting''"
    and "(if spreadAfter seen listing t = k @ ''DeepNesting'' then k @ listing
          else spreadAfter seen listing t) = spreadAfter (k # seen) listing t"
proof -
  have free: "\<not> includesStr ''DeepNesting'' (t @ listing)"
    by (rule plain_listing [OF assms])
  have no: "\<not> prefix (k @ ''DeepNesting'') (t @ listing)"
  proof
    assume "prefix (k @ ''DeepNesting'') (t @ listing)"
    then have "sublist ''DeepNesting'' (t @ listing)"
      by (rule prefix_tail_sublist)
    with free show False
      by (simp add: includesStr_sublist)
  qed
  have ne: "t @ listing \<noteq> k @ ''DeepNesting''"
    using no by auto
  show "prefix (k @ ''DeepNesting'') (spreadAfter seen listing t)
           \<Longrightarrow> spreadAfter seen listing t = k @ ''DeepNesting''"
    using no DeepNesting_word [OF assms(1), of k]
    by (auto simp: spreadAfter_def split: if_splits)
  show "(if spreadAfter seen listing t = k @ ''DeepNesting'' then k @ listing
          else spreadAfter seen listing t) = spreadAfter (k # seen) listing t"
    using ne by (auto simp: spreadAfter_def)
qed

lemma spreadAfter_dots:
  assumes "CHR ''.'' \<notin> set t" and "listing = ''PublicListing'' \<or> listing = ''AdminListing''"
  shows "CHR ''.'' \<notin> set (spreadAfter seen listing t)"
  using assms by (auto simp: spreadAfter_def)

lemma line_pass:
  assumes k: "CHR 0x0A \<notin> set k" and s: "plainSelection s"
    and l: "listing = ''PublicListing'' \<or> listing = ''AdminListing''"
  shows "replaceAll (''...'' @ k @ ''DeepNesting'') (''...'' @ k @ listing)
           (specLine (spreadAfter seen listing) s @ b)
         = specLine (spreadAfter (k # seen) listing) s
             @ replaceAll (''...'' @ k @ ''DeepNesting'') (''...'' @ k @ listing) b"
proof (cases s)
  case (Scalar f)
  with s have "CHR ''.'' \<notin> set f"
    by (simp add: plainName_def isName_chars)
  then show ?thesis
    using Scalar replaceAll_head [of "''...'' @ k @ ''DeepNesting''" f] by simp
next
  case (Relation f t)
  let ?p = "''...'' @ k @ ''DeepNesting''"
  let ?r = "''...'' @ k @ listing"
  let ?w = "spreadAfter seen listing t"
  from s Relation have f: "CHR ''.'' \<notin> set f" and t: "CHR ''.'' \<notin> set t"
    and free: "\<not> includesStr ''DeepNesting'' t"
    by (simp_all add: plainName_def isName_chars)
  have 1: "replaceAll ?p ?r ((f @ '' {\<newline>    '') @ x) = (f @ '' {\<newline>    '') @ replaceAll ?p ?r x" for x
    using f by (intro replaceAll_head) simp_all
  have 2: "replaceAll ?p ?r (''...'' @ ?w @ CHR 0x0A # x)
            = ''...'' @ spreadAfter (k # seen) listing t @ CHR 0x0A # replaceAll ?p ?r x" for x
    using spread_pass [where w = ?w and b = x and listing = listing,
        OF k spreadAfter_dots [OF t l] spreadAfter_word(1) [OF free l]]
    by (simp only: spreadAfter_word(2) [OF free l])
  have 3: "replaceAll ?p ?r (''  }'' @ x) = ''  }'' @ replaceAll ?p ?r x" for x
    by (rule replaceAll_head) simp_all
  have a: "specLine (spreadAfter seen listing) s @ b
          = (f @ '' {\<newline>    '') @ (''...'' @ ?w @ CHR 0x0A # (''  }'' @ b))"
    using Relation by simp
  have c: "specLine (spreadAfter (k # seen) listing) s @ replaceAll ?p ?r b
          = (f @ '' {\<newline>    '') @ (''...'' @ spreadAfter (k # seen) listing t @ CHR 0x0A
               # (''  }'' @ replaceAll ?p ?r b))"
    using Relation by simp
  show ?thesis
    by (simp only: a c 1 2 3)
qed


text \<open>A function on texts that passes over the separators and rewrites each line.\<close>

lemma lines_rewritten:
  fixes F :: "string \<Rightarrow> string"
  assumes sp: "\<And>x. F (CHR '' '' # x) = CHR '' '' # F x"
    and nl: "\<And>x. F (CHR 0x0A # x) = CHR 0x0A # F x"
    and line: "\<And>s x. s \<in> set sels \<Longrightarrow> F (g s @ CHR 0x0A # x) = h s @ CHR 0x0A # F x"
  shows "F (specLines (map g sels) @ CHR 0x0A # b) = specLines (map h sels) @ CHR 0x0A # F b"
proof (cases sels)
  case Nil
  then show ?thesis
    by (simp add: nl)
next
  case (Cons s0 rest)
  have step: "set (s # xs) \<subseteq> set sels \<Longrightarrow>
      F (g s @ concat (map (\<lambda>x. CHR 0x0A # CHR '' '' # CHR '' '' # g x) xs) @ CHR 0x0A # b)
      = h s @ concat (map (\<lambda>x. CHR 0x0A # CHR '' '' # CHR '' '' # h x) xs) @ CHR 0x0A # F b"
    for s xs
  proof (induction xs arbitrary: s)
    case Nil
    then show ?case
      by (simp add: line)
  next
    case (Cons y ys)
    from Cons.prems have s: "s \<in> set sels" and y: "set (y # ys) \<subseteq> set sels"
      by simp_all
    show ?case
      by (simp add: line [OF s] sp Cons.IH [OF y])
  qed
  from step [of s0 rest] Cons show ?thesis
    by (simp add: comp_def)
qed

lemma text_rewritten:
  fixes F :: "string \<Rightarrow> string"
  assumes header: "\<And>x. F (''fragment '' @ typeName @ label @ '' on '' @ typeName @ '' {\<newline>  '' @ x)
                         = ''fragment '' @ typeName @ label @ '' on '' @ typeName @ '' {\<newline>  '' @ F x"
    and lead: "\<And>x. F (specLeadingSpread typeName label @ x) = specLeadingSpread typeName label @ F x"
    and sp: "\<And>x. F (CHR '' '' # x) = CHR '' '' # F x"
    and nl: "\<And>x. F (CHR 0x0A # x) = CHR 0x0A # F x"
    and line: "\<And>s x. s \<in> set sels
                 \<Longrightarrow> F (specLine g s @ CHR 0x0A # x) = specLine h s @ CHR 0x0A # F x"
    and closing: "F ''}'' = ''}''"
  shows "F (specDeepText g typeName label sels) = specDeepText h typeName label sels"
  unfolding specDeepText_def
  by (simp only: header lead closing
        lines_rewritten [where F = F and g = "specLine g" and h = "specLine h", OF sp nl line])

lemma nameChars_free:
  assumes "list_all (\<lambda>c. c \<in> set nameChars) x"
  shows "CHR '' '' \<notin> set x" and "CHR ''.'' \<notin> set x" and "CHR 0x0A \<notin> set x"
proof -
  have sub: "set x \<subseteq> set nameChars"
    using assms by (auto simp: list_all_iff)
  have "CHR '' '' \<notin> set nameChars" and "CHR ''.'' \<notin> set nameChars" and "CHR 0x0A \<notin> set nameChars"
    by (simp_all add: nameChars_def)
  with sub show "CHR '' '' \<notin> set x" and "CHR ''.'' \<notin> set x" and "CHR 0x0A \<notin> set x"
    by blast+
qed

subsection \<open>The passes for the keys of the tier configuration\<close>

lemma plain_spread_pass:
  assumes k: "CHR 0x0A \<notin> set k" and w: "CHR ''.'' \<notin> set w"
    and free: "\<not> includesStr ''DeepNesting'' w"
  shows "replaceAll (''...'' @ k @ ''DeepNesting'') (''...'' @ k @ listing)
           (''...'' @ w @ CHR 0x0A # b)
         = ''...'' @ w @ CHR 0x0A
             # replaceAll (''...'' @ k @ ''DeepNesting'') (''...'' @ k @ listing) b"
proof -
  have no: "\<not> prefix (k @ ''DeepNesting'') w"
  proof
    assume "prefix (k @ ''DeepNesting'') w"
    then have "sublist ''DeepNesting'' w"
      by (rule prefix_tail_sublist)
    with free show False
      by (simp add: includesStr_sublist)
  qed
  then have ne: "w \<noteq> k @ ''DeepNesting''"
    by auto
  have c: "prefix (k @ ''DeepNesting'') w \<Longrightarrow> w = k @ ''DeepNesting''"
    using no by simp
  show ?thesis
    using spread_pass [where w = w and b = b and listing = listing, OF k w c] ne
    by (simp only: if_False)
qed

lemma leading_spread_pass:
  assumes k: "CHR 0x0A \<notin> set k" and n: "plainName typeName"
  shows "replaceAll (''...'' @ k @ ''DeepNesting'') (''...'' @ k @ listing)
           (specLeadingSpread typeName label @ x)
         = specLeadingSpread typeName label
             @ replaceAll (''...'' @ k @ ''DeepNesting'') (''...'' @ k @ listing) x"
proof -
  let ?F = "replaceAll (''...'' @ k @ ''DeepNesting'') (''...'' @ k @ listing)"
  from n have dots: "CHR ''.'' \<notin> set typeName" and free: "\<not> includesStr ''DeepNesting'' typeName"
    by (simp_all add: plainName_def isName_chars)
  have w: "?F (''...'' @ (typeName @ l) @ CHR 0x0A # y) = ''...'' @ (typeName @ l) @ CHR 0x0A # ?F y"
    if "l = ''PublicListing'' \<or> l = ''AdminListing''" for l y
  proof (rule plain_spread_pass [OF k])
    show "CHR ''.'' \<notin> set (typeName @ l)"
      using dots that by auto
    show "\<not> includesStr ''DeepNesting'' (typeName @ l)"
      by (rule plain_listing [OF free that])
  qed
  have sp: "?F (''  '' @ y) = ''  '' @ ?F y" for y
    by (rule replaceAll_head) simp_all
  have a: "?F (''...'' @ (typeName @ l) @ CHR 0x0A # (''  '' @ y))
             = ''...'' @ (typeName @ l) @ CHR 0x0A # (''  '' @ ?F y)"
    if "l = ''PublicListing'' \<or> l = ''AdminListing''" for l y
    by (simp only: w [OF that] sp)
  show ?thesis
    using a [of "''AdminListing''" x] a [of "''PublicListing''" x]
    by (simp add: specLeadingSpread_def)
qed

lemma key_pass:
  assumes k: "isName k" and n: "plainName typeName" and lab: "plainLabel typeName label"
    and s: "list_all plainSelection sels"
    and l: "listing = ''PublicListing'' \<or> listing = ''AdminListing''"
  shows "replaceAll (''...'' @ k @ ''DeepNesting'') (''...'' @ k @ listing)
           (specDeepText (spreadAfter seen listing) typeName label sels)
         = specDeepText (spreadAfter (k # seen) listing) typeName label sels"
proof (rule text_rewritten)
  let ?p = "''...'' @ k @ ''DeepNesting''"
  let ?F = "replaceAll (''...'' @ k @ ''DeepNesting'') (''...'' @ k @ listing)"
  have knl: "CHR 0x0A \<notin> set k"
    by (rule isName_chars(3) [OF k])
  from n have dn: "CHR ''.'' \<notin> set typeName"
    by (simp add: plainName_def isName_chars)
  from lab have dl: "CHR ''.'' \<notin> set label"
    by (simp add: plainLabel_def nameChars_free)
  fix x
  have "?F ((''fragment '' @ typeName @ label @ '' on '' @ typeName @ '' {\<newline>  '') @ x)
          = (''fragment '' @ typeName @ label @ '' on '' @ typeName @ '' {\<newline>  '') @ ?F x"
    using dn dl by (intro replaceAll_head) simp_all
  then show "?F (''fragment '' @ typeName @ label @ '' on '' @ typeName @ '' {\<newline>  '' @ x)
          = ''fragment '' @ typeName @ label @ '' on '' @ typeName @ '' {\<newline>  '' @ ?F x"
    by (simp only: append_assoc)
  show "?F (specLeadingSpread typeName label @ x) = specLeadingSpread typeName label @ ?F x"
    by (rule leading_spread_pass [OF knl n])
  show "?F (CHR '' '' # x) = CHR '' '' # ?F x"
    using replaceAll_head [of ?p "[CHR '' '']" _ x] by simp
  show nl: "?F (CHR 0x0A # x) = CHR 0x0A # ?F x"
    using replaceAll_head [of ?p "[CHR 0x0A]" _ x] by simp
  show "?F ''}'' = ''}''"
    using replaceAll_head [of ?p "''}''" _ "[]"] by simp
  fix sel
  assume "sel \<in> set sels"
  with s have ps: "plainSelection sel"
    by (simp add: list_all_iff)
  have "?F (CHR 0x0A # y) = CHR 0x0A # ?F y" for y
    using replaceAll_head [of ?p "[CHR 0x0A]" _ y] by simp
  then show "?F (specLine (spreadAfter seen listing) sel @ CHR 0x0A # x)
               = specLine (spreadAfter (k # seen) listing) sel @ CHR 0x0A # ?F x"
    by (simp only: line_pass [OF knl ps l])
qed

lemma replaceModels_text:
  assumes k: "list_all isName keys" and n: "plainName typeName" and lab: "plainLabel typeName label"
    and s: "list_all plainSelection sels"
    and l: "listing = ''PublicListing'' \<or> listing = ''AdminListing''"
  shows "replaceModels listing keys (specDeepText (spreadAfter seen listing) typeName label sels)
         = specDeepText (spreadAfter (rev keys @ seen) listing) typeName label sels"
  using k
proof (induction keys arbitrary: seen)
  case Nil
  show ?case by simp
next
  case (Cons k ks)
  then have k: "isName k" and ks: "list_all isName ks"
    by simp_all
  have r: "rev (k # ks) @ seen = rev ks @ k # seen"
    by simp
  show ?case
    unfolding r
    by (simp only: replaceModels.simps key_pass [OF k n lab s l] Cons.IH [OF ks])
qed

subsection \<open>The last pass\<close>

lemma final_skip:
  assumes "c \<notin> set ''DeepNesting''"
  shows "replaceAll ''DeepNesting'' ''Full'' (c # x) = c # replaceAll ''DeepNesting'' ''Full'' x"
  using replaceAll_sep [OF assms, of "[]" "''Full''" x] by simp

lemma final_word:
  assumes "\<not> includesStr ''DeepNesting'' t"
  shows "replaceAll ''DeepNesting'' ''Full'' (t @ ''DeepNesting'' @ b)
           = t @ ''Full'' @ replaceAll ''DeepNesting'' ''Full'' b"
  using assms
proof (induction t)
  case Nil
  show ?case
    using replaceAll_match [of "''DeepNesting''" "''Full''" b] by simp
next
  case (Cons x t)
  have "\<not> prefix ''DeepNesting'' ((x # t) @ ''DeepNesting'' @ b)"
  proof
    assume "prefix ''DeepNesting'' ((x # t) @ ''DeepNesting'' @ b)"
    from DeepNesting_border [OF this] Cons.prems show False
      by simp
  qed
  then have np: "\<not> prefix ''DeepNesting'' (x # t @ ''DeepNesting'' @ b)"
    by simp
  from Cons.prems have "\<not> includesStr ''DeepNesting'' t"
    by simp
  from Cons.IH [OF this] replaceAll_no_match [OF np, of "''Full''"] show ?case
    by simp
qed

lemma final_spread:
  assumes free: "\<not> includesStr ''DeepNesting'' t"
    and l: "listing = ''PublicListing'' \<or> listing = ''AdminListing''"
  shows "replaceAll ''DeepNesting'' ''Full'' (spreadAfter seen listing t @ CHR 0x0A # y)
           = (if t \<in> set seen then t @ listing else t @ ''Full'') @ CHR 0x0A
               # replaceAll ''DeepNesting'' ''Full'' y"
proof (cases "t \<in> set seen")
  case True
  have "replaceAll ''DeepNesting'' ''Full'' ((t @ listing) @ CHR 0x0A # y)
          = (t @ listing) @ CHR 0x0A # replaceAll ''DeepNesting'' ''Full'' y"
    by (rule replaceAll_sep) (simp_all add: plain_listing [OF free l])
  with True show ?thesis
    by (simp add: spreadAfter_def)
next
  case False
  have "replaceAll ''DeepNesting'' ''Full'' (t @ ''DeepNesting'' @ (CHR 0x0A # y))
          = t @ ''Full'' @ replaceAll ''DeepNesting'' ''Full'' (CHR 0x0A # y)"
    by (rule final_word [OF free])
  with False show ?thesis
    by (simp add: spreadAfter_def final_skip)
qed

lemma final_line:
  assumes s: "plainSelection s"
    and l: "listing = ''PublicListing'' \<or> listing = ''AdminListing''"
  shows "replaceAll ''DeepNesting'' ''Full'' (specLine (spreadAfter seen listing) s @ CHR 0x0A # x)
           = specLine (\<lambda>t. if t \<in> set seen then t @ listing else t @ ''Full'') s @ CHR 0x0A
               # replaceAll ''DeepNesting'' ''Full'' x"
proof (cases s)
  case (Scalar f)
  with s have "\<not> includesStr ''DeepNesting'' f"
    by (simp add: plainName_def)
  then have "replaceAll ''DeepNesting'' ''Full'' (f @ CHR 0x0A # x)
               = f @ CHR 0x0A # replaceAll ''DeepNesting'' ''Full'' x"
    by (intro replaceAll_sep) simp_all
  with Scalar show ?thesis
    by simp
next
  case (Relation f t)
  from s Relation have ff: "\<not> includesStr ''DeepNesting'' f" and ft: "\<not> includesStr ''DeepNesting'' t"
    by (simp_all add: plainName_def)
  have 1: "replaceAll ''DeepNesting'' ''Full'' (f @ CHR '' '' # y)
             = f @ CHR '' '' # replaceAll ''DeepNesting'' ''Full'' y" for y
    using ff by (intro replaceAll_sep) simp_all
  have 2: "replaceAll ''DeepNesting'' ''Full'' (CHR ''{'' # y)
             = CHR ''{'' # replaceAll ''DeepNesting'' ''Full'' y" for y
    by (rule final_skip) simp
  have 3: "replaceAll ''DeepNesting'' ''Full'' (CHR 0x0A # y)
             = CHR 0x0A # replaceAll ''DeepNesting'' ''Full'' y" for y
    by (rule final_skip) simp
  have 4: "replaceAll ''DeepNesting'' ''Full'' (CHR '' '' # y)
             = CHR '' '' # replaceAll ''DeepNesting'' ''Full'' y" for y
    by (rule final_skip) simp
  have 5: "replaceAll ''DeepNesting'' ''Full'' (CHR ''.'' # y)
             = CHR ''.'' # replaceAll ''DeepNesting'' ''Full'' y" for y
    by (rule final_skip) simp
  have 6: "replaceAll ''DeepNesting'' ''Full'' (CHR ''}'' # y)
             = CHR ''}'' # replaceAll ''DeepNesting'' ''Full'' y" for y
    by (rule final_skip) simp
  have shape: "specLine g (Relation f t) @ CHR 0x0A # y
      = f @ CHR '' '' # CHR ''{'' # CHR 0x0A # CHR '' '' # CHR '' '' # CHR '' '' # CHR '' ''
          # CHR ''.'' # CHR ''.'' # CHR ''.''
          # (g t @ CHR 0x0A # CHR '' '' # CHR '' '' # CHR ''}'' # CHR 0x0A # y)" for g y
    by simp
  show ?thesis
    unfolding Relation
    by (simp only: shape 1 2 3 4 5 6 final_spread [OF ft l])
qed

lemma final_text:
  assumes n: "plainName typeName" and lab: "plainLabel typeName label"
    and s: "list_all plainSelection sels"
    and l: "listing = ''PublicListing'' \<or> listing = ''AdminListing''"
  shows "replaceAll ''DeepNesting'' ''Full''
           (specDeepText (spreadAfter seen listing) typeName label sels)
         = specDeepText (\<lambda>t. if t \<in> set seen then t @ listing else t @ ''Full'')
             typeName label sels"
proof (rule text_rewritten)
  let ?F = "replaceAll ''DeepNesting'' ''Full''"
  from n have fn: "\<not> includesStr ''DeepNesting'' typeName"
    by (simp add: plainName_def)
  from lab have fl: "\<not> includesStr ''DeepNesting'' (typeName @ label)"
    by (simp add: plainLabel_def)
  fix x
  show sp: "?F (CHR '' '' # y) = CHR '' '' # ?F y" for y
    by (rule final_skip) simp
  show nl: "?F (CHR 0x0A # y) = CHR 0x0A # ?F y" for y
    by (rule final_skip) simp
  have dot: "?F (CHR ''.'' # y) = CHR ''.'' # ?F y" for y
    by (rule final_skip) simp
  have 1: "?F (''fragment'' @ CHR '' '' # y) = ''fragment'' @ CHR '' '' # ?F y" for y
    by (rule replaceAll_sep) simp_all
  have 2: "?F ((typeName @ label) @ CHR '' '' # y) = (typeName @ label) @ CHR '' '' # ?F y" for y
    using fl by (intro replaceAll_sep) simp_all
  have 3: "?F (''on'' @ CHR '' '' # y) = ''on'' @ CHR '' '' # ?F y" for y
    by (rule replaceAll_sep) simp_all
  have 4: "?F (typeName @ CHR '' '' # y) = typeName @ CHR '' '' # ?F y" for y
    using fn by (intro replaceAll_sep) simp_all
  have 5: "?F (''{'' @ CHR 0x0A # y) = ''{'' @ CHR 0x0A # ?F y" for y
    by (rule replaceAll_sep) simp_all
  have shape: "''fragment '' @ typeName @ label @ '' on '' @ typeName @ '' {\<newline>  '' @ y
      = ''fragment'' @ CHR '' '' # ((typeName @ label) @ CHR '' '' # (''on'' @ CHR '' ''
          # (typeName @ CHR '' '' # (''{'' @ CHR 0x0A # CHR '' '' # CHR '' '' # y))))" for y
    by simp
  show "?F (''fragment '' @ typeName @ label @ '' on '' @ typeName @ '' {\<newline>  '' @ x)
          = ''fragment '' @ typeName @ label @ '' on '' @ typeName @ '' {\<newline>  '' @ ?F x"
    by (simp only: shape 1 2 3 4 5 sp)
  have w: "?F ((typeName @ l') @ CHR 0x0A # y) = (typeName @ l') @ CHR 0x0A # ?F y"
    if "l' = ''PublicListing'' \<or> l' = ''AdminListing''" for l' y
    by (rule replaceAll_sep) (simp_all add: plain_listing [OF fn that])
  have lshape: "''...'' @ (typeName @ l') @ ''\<newline>  '' @ y
      = CHR ''.'' # CHR ''.'' # CHR ''.'' # ((typeName @ l') @ CHR 0x0A # CHR '' '' # CHR '' '' # y)"
    for l' y
    by simp
  have a: "?F (''...'' @ (typeName @ l') @ ''\<newline>  '' @ y) = ''...'' @ (typeName @ l') @ ''\<newline>  '' @ ?F y"
    if "l' = ''PublicListing'' \<or> l' = ''AdminListing''" for l' y
    by (simp only: lshape dot w [OF that] sp)
  show "?F (specLeadingSpread typeName label @ x) = specLeadingSpread typeName label @ ?F x"
    using a [of "''AdminListing''" x] a [of "''PublicListing''" x]
    by (simp add: specLeadingSpread_def)
  show "?F ''}'' = ''}''"
    by (simp add: replaceAll.simps(2))
  fix sel
  assume "sel \<in> set sels"
  with s have ps: "plainSelection sel"
    by (simp add: list_all_iff)
  show "?F (specLine (spreadAfter seen listing) sel @ CHR 0x0A # x)
          = specLine (\<lambda>t. if t \<in> set seen then t @ listing else t @ ''Full'') sel @ CHR 0x0A # ?F x"
    by (rule final_line [OF ps l])
qed

subsection \<open>The code's deep fragments and those of the specification\<close>

lemma join_specLines: "join ''\<newline>  '' ls = specLines ls"
  by (induction "''\<newline>  ''" ls rule: join.induct) simp_all

lemma indentedLine_1: "indentedLine 1 = ''\<newline>  ''"
  by (simp add: indentedLine_def)

lemma spreads_join:
  "join (indentedLine 1) (spreadFragments typeName label) = specLeadingSpread typeName label"
  unfolding indentedLine_1
  by (simp add: spreadFragments_def specLeadingSpread_def Let_def)

lemma firstToken_specLine:
  assumes "CHR '' '' \<notin> set (selName s)"
  shows "firstToken (specLine g s) = selName s"
proof (cases s)
  case (Scalar f)
  with assms show ?thesis
    by (auto simp: firstToken_def)
next
  case (Relation f t)
  with assms have "takeWhile (\<lambda>c. c \<noteq> CHR '' '') (f @ CHR '' '' # ''{\<newline>    ...'' @ g t @ ''\<newline>  }'') = f"
    by (intro takeWhile_sep) simp
  with Relation show ?thesis
    by (simp add: firstToken_def)
qed

lemma filter_specLine:
  assumes "list_all plainSelection sels"
  shows "filter (\<lambda>f. firstToken f \<in> set allowlist) (map (specLine g) sels)
           = map (specLine g) (filter (\<lambda>s. selName s \<in> set allowlist) sels)"
  using assms
proof (induction sels)
  case Nil
  show ?case by simp
next
  case (Cons s sels)
  then have "plainName (selName s)"
    by (cases s) simp_all
  then have "CHR '' '' \<notin> set (selName s)"
    by (simp add: plainName_def isName_chars)
  from firstToken_specLine [OF this] Cons show ?case
    by simp
qed

lemma plainSelection_filter:
  "list_all plainSelection sels \<Longrightarrow> list_all plainSelection (filter P sels)"
  by (simp add: list_all_iff)

lemma spreadAfter_Nil: "spreadAfter [] listing = (\<lambda>t. t @ ''DeepNesting'')"
  by (simp add: fun_eq_iff spreadAfter_def)

lemma rewritten_text:
  assumes k: "list_all isName keys" and n: "plainName typeName" and lab: "plainLabel typeName label"
    and s: "list_all plainSelection sels"
    and l: "listing = ''PublicListing'' \<or> listing = ''AdminListing''"
  shows "replaceAll ''DeepNesting'' ''Full''
           (replaceModels listing keys
              (specDeepText (\<lambda>t. t @ ''DeepNesting'') typeName label sels))
         = specDeepText (\<lambda>t. if t \<in> set keys then t @ listing else t @ ''Full'')
             typeName label sels"
proof -
  have "replaceModels listing keys (specDeepText (spreadAfter [] listing) typeName label sels)
          = specDeepText (spreadAfter (rev keys @ []) listing) typeName label sels"
    by (rule replaceModels_text [OF k n lab s l])
  then have "replaceAll ''DeepNesting'' ''Full''
           (replaceModels listing keys
              (specDeepText (\<lambda>t. t @ ''DeepNesting'') typeName label sels))
        = replaceAll ''DeepNesting'' ''Full''
            (specDeepText (spreadAfter (rev keys @ []) listing) typeName label sels)"
    by (simp only: spreadAfter_Nil)
  also have "\<dots> = specDeepText (\<lambda>t. if t \<in> set (rev keys @ []) then t @ listing else t @ ''Full'')
             typeName label sels"
    by (rule final_text [OF n lab s l])
  finally show ?thesis
    by simp
qed

lemma tierFragment_spec:
  assumes k: "list_all isName keys" and n: "plainName typeName" and lab: "plainLabel typeName label"
    and s: "list_all plainSelection sels"
  shows "tierFragment keys typeName (map (specLine (\<lambda>t. t @ ''DeepNesting'')) sels) (label, allowlist)
           = specTierFragment keys typeName sels (label, allowlist)"
proof -
  let ?kept = "filter (\<lambda>s. selName s \<in> set allowlist) sels"
  have kept: "list_all plainSelection ?kept"
    by (rule plainSelection_filter [OF s])
  have text0: "''fragment '' @ typeName @ label @ '' on '' @ typeName @ '' {\<newline>  ''
              @ join (indentedLine 1) (spreadFragments typeName label)
              @ join (indentedLine 1)
                  (filter (\<lambda>f. firstToken f \<in> set allowlist)
                     (map (specLine (\<lambda>t. t @ ''DeepNesting'')) sels))
              @ ''\<newline>}''
            = specDeepText (\<lambda>t. t @ ''DeepNesting'') typeName label ?kept"
    unfolding specDeepText_def spreads_join filter_specLine [OF s]
    by (simp only: indentedLine_1 join_specLines)
  have spread: "specSpread keys label
                  = (\<lambda>t. if t \<in> set keys
                          then t @ (if includesStr ''Admin'' label then ''AdminListing'' else ''PublicListing'')
                          else t @ ''Full'')"
    by (simp add: fun_eq_iff specSpread_def includesStr_sublist)
  show ?thesis
  proof (cases "includesStr ''Admin'' label")
    case True
    have "replaceAll ''DeepNesting'' ''Full''
           (replaceModels ''AdminListing'' keys
              (specDeepText (\<lambda>t. t @ ''DeepNesting'') typeName label ?kept))
         = specDeepText (\<lambda>t. if t \<in> set keys then t @ ''AdminListing'' else t @ ''Full'')
             typeName label ?kept"
      by (rule rewritten_text [OF k n lab kept]) simp
    with True show ?thesis
      unfolding tierFragment_def specTierFragment_def Let_def prod.case text0 spread
      by simp
  next
    case False
    have "replaceAll ''DeepNesting'' ''Full''
           (replaceModels ''PublicListing'' keys
              (specDeepText (\<lambda>t. t @ ''DeepNesting'') typeName label ?kept))
         = specDeepText (\<lambda>t. if t \<in> set keys then t @ ''PublicListing'' else t @ ''Full'')
             typeName label ?kept"
      by (rule rewritten_text [OF k n lab kept]) simp
    with False show ?thesis
      unfolding tierFragment_def specTierFragment_def Let_def prod.case text0 spread
      by simp
  qed
qed

lemma plainLabel_Full:
  assumes "plainName typeName"
  shows "plainLabel typeName ''Full''"
  using assms by (simp add: plainLabel_def plainName_def nameChars_def includesStr_sep)

lemma fullFragment_spec:
  assumes k: "list_all isName keys" and n: "plainName typeName"
    and s: "list_all plainSelection sels"
  shows "fullFragment keys typeName (map (specLine (\<lambda>t. t @ ''DeepNesting'')) sels)
           = specFullFragment keys typeName sels"
proof -
  have text0: "''fragment '' @ typeName @ ''Full on '' @ typeName @ '' {\<newline>  ''
              @ join (indentedLine 1) (map (specLine (\<lambda>t. t @ ''DeepNesting'')) sels) @ ''\<newline>}''
            = specDeepText (\<lambda>t. t @ ''DeepNesting'') typeName ''Full'' sels"
    unfolding indentedLine_1 join_specLines
    by (simp add: specDeepText_def specLeadingSpread_def)
  have spread: "specSpread keys ''Full''
                  = (\<lambda>t. if t \<in> set keys then t @ ''PublicListing'' else t @ ''Full'')"
    by (simp add: fun_eq_iff specSpread_def flip: includesStr_sublist)
  have "replaceAll ''DeepNesting'' ''Full''
           (replaceModels ''PublicListing'' keys
              (specDeepText (\<lambda>t. t @ ''DeepNesting'') typeName ''Full'' sels))
         = specDeepText (\<lambda>t. if t \<in> set keys then t @ ''PublicListing'' else t @ ''Full'')
             typeName ''Full'' sels"
    by (rule rewritten_text [OF k n plainLabel_Full [OF n] s]) simp
  then show ?thesis
    unfolding fullFragment_def specFullFragment_def Let_def text0 spread
    by simp
qed

subsection \<open>No \<^verbatim>\<open>DeepNesting\<close> after the last pass\<close>

lemma includesStr_append_left:
  assumes "p \<noteq> []" and "hd p \<notin> set r"
  shows "includesStr p (r @ s) = includesStr p s"
  using assms by (induction r) (auto simp: prefix_Cons neq_Nil_conv)

lemma replaceAll_prefix_copied:
  assumes "r \<noteq> []" and "set q \<inter> set r = {}" and "prefix q (replaceAll p r s)"
  shows "prefix q s"
  using assms
proof (induction p r s arbitrary: q rule: replaceAll.induct)
  case (1 p r)
  then show ?case by simp
next
  case (2 p r c cs)
  show ?case
  proof (cases q)
    case Nil
    then show ?thesis by simp
  next
    case (Cons x q')
    show ?thesis
    proof (cases "p \<noteq> [] \<and> prefix p (c # cs)")
      case True
      with 2(3-5) Cons have "prefix (x # q') (r @ replaceAll p r (drop (length p - 1) cs))"
        by (simp add: replaceAll.simps(2))
      with \<open>r \<noteq> []\<close> have "x = hd r"
        by (cases r) auto
      with \<open>r \<noteq> []\<close> 2(4) Cons show ?thesis
        by auto
    next
      case False
      with 2(5) Cons have "x = c" and "prefix q' (replaceAll p r cs)"
        by (auto simp: replaceAll.simps(2))
      moreover have "set q' \<inter> set r = {}"
        using 2(4) Cons by auto
      ultimately have "prefix q' cs"
        using 2(2) [OF False \<open>r \<noteq> []\<close>] by blast
      with \<open>x = c\<close> Cons show ?thesis
        by simp
    qed
  qed
qed

lemma replaceAll_removes_pattern:
  assumes "p \<noteq> []" and "r \<noteq> []" and "set p \<inter> set r = {}"
  shows "\<not> includesStr p (replaceAll p r s)"
  using assms
proof (induction p r s rule: replaceAll.induct)
  case (1 p r)
  then show ?case by simp
next
  case (2 p r c cs)
  have hd: "hd p \<notin> set r"
    using 2(3,5) by (cases p) auto
  show ?case
  proof (cases "prefix p (c # cs)")
    case True
    with 2(3) have m: "p \<noteq> [] \<and> prefix p (c # cs)"
      by simp
    have "\<not> includesStr p (replaceAll p r (drop (length p - 1) cs))"
      using 2(1) [OF m 2(3,4,5)] .
    then have "\<not> includesStr p (r @ replaceAll p r (drop (length p - 1) cs))"
      by (simp add: includesStr_append_left [OF 2(3) hd])
    with m show ?thesis
      by (simp add: replaceAll.simps(2))
  next
    case False
    then have m: "\<not> (p \<noteq> [] \<and> prefix p (c # cs))"
      by simp
    have ih: "\<not> includesStr p (replaceAll p r cs)"
      using 2(2) [OF m 2(3,4,5)] .
    have "\<not> prefix p (c # replaceAll p r cs)"
    proof
      assume pr: "prefix p (c # replaceAll p r cs)"
      obtain y p' where p: "p = y # p'"
        using 2(3) by (cases p) auto
      with pr have "y = c" and "prefix p' (replaceAll p r cs)"
        by auto
      moreover have "set p' \<inter> set r = {}"
        using 2(5) p by auto
      ultimately have "prefix p' cs"
        using replaceAll_prefix_copied [OF 2(4)] by blast
      with \<open>y = c\<close> p have "prefix p (c # cs)"
        by simp
      with False show False
        by simp
    qed
    with ih False show ?thesis
      by (simp add: replaceAll.simps(2))
  qed
qed

lemma no_DeepNesting_after_rewrite:
  "\<not> includesStr ''DeepNesting'' (replaceAll ''DeepNesting'' ''Full'' s)"
  by (rule replaceAll_removes_pattern) simp_all

lemma tierFragment_no_DeepNesting:
  "\<not> includesStr ''DeepNesting'' (fragment (tierFragment modelNames typeName deepFields tier))"
  by (cases tier) (simp add: tierFragment_def Let_def no_DeepNesting_after_rewrite)

lemma fullFragment_no_DeepNesting:
  "\<not> includesStr ''DeepNesting'' (fragment (fullFragment modelNames typeName deepFields))"
  by (simp add: fullFragment_def Let_def no_DeepNesting_after_rewrite)

lemma deepFragmentsOf_no_DeepNesting:
  assumes "deepFragmentsOf ast modelConfigs typeName = Inr (Some sub)" and "f \<in> set sub"
  shows "\<not> includesStr ''DeepNesting'' (fragment f)"
proof -
  from assms(1) obtain ty where ty: "getType ast typeName = Some ty"
    by (auto simp: deepFragmentsOf_def split: option.splits)
  from assms(1) ty obtain deepFields where g: "generateFragments ty ast DEEP = Inr deepFields"
    by (auto simp: deepFragmentsOf_def andThen_def split: sum.splits)
  show ?thesis
  proof (cases "modelConfigOf modelConfigs typeName")
    case None
    with assms(1) ty g have "sub = [fullFragment (map fst modelConfigs) typeName deepFields]"
      by (simp add: deepFragmentsOf_def andThen_def split: if_splits)
    with assms(2) show ?thesis
      by (simp add: fullFragment_no_DeepNesting)
  next
    case (Some entry)
    with assms(1) ty g
    have "sub = map (tierFragment (map fst modelConfigs) typeName deepFields) entry"
      by (simp add: deepFragmentsOf_def andThen_def split: if_splits)
    with assms(2) show ?thesis
      by (auto simp: tierFragment_no_DeepNesting)
  qed
qed

subsection \<open>The deep fragments of a run\<close>

lemma printField_deep:
  "printField ast (fst fd) (snd fd) DEEP 1
     = andThen (deepSelection ast fd)
         (\<lambda>s. Inr (map_option (specLine (\<lambda>t. t @ ''DeepNesting'')) s))"
  by (auto simp: printField_def deepSelection_def andThen_def spreadTarget_def indentedLine_def
           split: sum.splits prod.splits)

lemma mapE_selections:
  assumes "\<And>x. f x = andThen (g x) (\<lambda>s. Inr (map_option h s))"
  shows "andThen (mapE f xs) (\<lambda>r. Inr (nonNull r))
           = andThen (mapE g xs) (\<lambda>r. Inr (map h (nonNull r)))"
proof (induction xs)
  case Nil
  show ?case by (simp add: andThen_def)
next
  case (Cons x xs)
  show ?case
  proof (cases "g x")
    case (Inl e)
    then show ?thesis
      by (simp add: assms andThen_def)
  next
    case (Inr s)
    with Cons show ?thesis
      by (cases s) (auto simp: assms andThen_def split: sum.splits)
  qed
qed

lemma generateFragments_deep:
  "generateFragments (GraphQLObjectType fieldDefs) ast DEEP
     = andThen (deepSelections ast fieldDefs)
         (\<lambda>sels. Inr (map (specLine (\<lambda>t. t @ ''DeepNesting'')) sels))"
proof -
  have "andThen (mapE (\<lambda>fd. printField ast (fst fd) (snd fd) DEEP 1) fieldDefs)
            (\<lambda>r. Inr (nonNull r))
          = andThen (mapE (deepSelection ast) fieldDefs)
              (\<lambda>r. Inr (map (specLine (\<lambda>t. t @ ''DeepNesting'')) (nonNull r)))"
    by (rule mapE_selections) (rule printField_deep)
  then show ?thesis
    by (simp add: generateFragments_def getFields_def deepSelections_def andThen_def
          case_prod_unfold split: sum.splits)
qed


lemma deepFragmentsOf_tiers:
  assumes ty: "getType ast typeName = Some (GraphQLObjectType fieldDefs)"
    and sels: "deepSelections ast fieldDefs = Inr sels" and ne: "sels \<noteq> []"
    and entry: "modelConfigOf modelConfigs typeName = Some entry"
  shows "deepFragmentsOf ast modelConfigs typeName
           = Inr (Some (map (tierFragment (map fst modelConfigs) typeName
                               (map (specLine (\<lambda>t. t @ ''DeepNesting'')) sels)) entry))"
  using assms by (simp add: deepFragmentsOf_def generateFragments_deep andThen_def)

lemma tierFragments_spec:
  assumes k: "keysAreNames modelConfigs" and n: "plainName typeName"
    and s: "list_all plainSelection sels"
    and l: "list_all (\<lambda>tier. plainLabel typeName (fst tier)) entry"
  shows "map (tierFragment (map fst modelConfigs) typeName
                (map (specLine (\<lambda>t. t @ ''DeepNesting'')) sels)) entry
           = map (specTierFragment (map fst modelConfigs) typeName sels) entry"
proof (rule map_cong [OF refl])
  fix tier
  assume "tier \<in> set entry"
  with l have lab: "plainLabel typeName (fst tier)"
    by (simp add: list_all_iff)
  from k have k': "list_all isName (map fst modelConfigs)"
    by (simp add: keysAreNames_def)
  from tierFragment_spec [OF k' n lab s, of "snd tier"]
  show "tierFragment (map fst modelConfigs) typeName
          (map (specLine (\<lambda>t. t @ ''DeepNesting'')) sels) tier
        = specTierFragment (map fst modelConfigs) typeName sels tier"
    by simp
qed

lemma deepFragmentsOf_spec:
  assumes keys: "keysAreNames modelConfigs" and plain: "plainType ast modelConfigs typeName"
    and r: "deepFragmentsOf ast modelConfigs typeName = Inr r"
  shows "(case r of None \<Rightarrow> [] | Some sub \<Rightarrow> sub) = specDeepFragmentsOf ast modelConfigs typeName"
proof -
  from r obtain ty where ty: "getType ast typeName = Some ty"
    by (auto simp: deepFragmentsOf_def split: option.splits)
  from r ty obtain deepFields where g: "generateFragments ty ast DEEP = Inr deepFields"
    by (auto simp: deepFragmentsOf_def andThen_def split: sum.splits)
  then obtain fieldDefs where obj: "ty = GraphQLObjectType fieldDefs"
    by (cases ty) (simp_all add: generateFragments_def getFields_def andThen_def)
  from g obj obtain sels where sels: "deepSelections ast fieldDefs = Inr sels"
    and fields: "deepFields = map (specLine (\<lambda>t. t @ ''DeepNesting'')) sels"
    by (auto simp: generateFragments_deep andThen_def split: sum.splits)
  from plain ty obj sels have n: "plainName typeName" and ps: "list_all plainSelection sels"
    by (simp_all add: plainType_def)
  from keys have k': "list_all isName (map fst modelConfigs)"
    by (simp add: keysAreNames_def)
  show ?thesis
  proof (cases "sels = []")
    case True
    with r ty obj g fields show ?thesis
      by (auto simp: deepFragmentsOf_def andThen_def specDeepFragmentsOf_def sels)
  next
    case False
    show ?thesis
    proof (cases "modelConfigOf modelConfigs typeName")
      case None
      with r ty obj g fields False
      have "r = Some [fullFragment (map fst modelConfigs) typeName
                        (map (specLine (\<lambda>t. t @ ''DeepNesting'')) sels)]"
        by (auto simp: deepFragmentsOf_def andThen_def)
      with None False ty obj sels show ?thesis
        by (simp add: specDeepFragmentsOf_def fullFragment_spec [OF k' n ps])
    next
      case (Some entry)
      from plain Some have l: "list_all (\<lambda>tier. plainLabel typeName (fst tier)) entry"
        by (simp add: plainType_def)
      from r deepFragmentsOf_tiers [OF ty [unfolded obj] sels False Some]
      have "r = Some (map (tierFragment (map fst modelConfigs) typeName
                             (map (specLine (\<lambda>t. t @ ''DeepNesting'')) sels)) entry)"
        by simp
      with Some False ty obj sels show ?thesis
        by (simp add: specDeepFragmentsOf_def tierFragments_spec [OF keys n ps l])
    qed
  qed
qed

lemma flatten_spec:
  assumes "mapE cb tns = Inr subs"
    and "\<And>n r. n \<in> set tns \<Longrightarrow> cb n = Inr r \<Longrightarrow> (case r of None \<Rightarrow> [] | Some sub \<Rightarrow> sub) = h n"
  shows "flatten subs = concat (map h tns)"
  using assms
proof (induction tns arbitrary: subs)
  case Nil
  then show ?case by simp
next
  case (Cons n ns)
  from Cons.prems(1) obtain r rs where r: "cb n = Inr r" and rs: "mapE cb ns = Inr rs"
    and subs: "subs = r # rs"
    by (auto simp: andThen_def split: sum.splits)
  have ih: "flatten rs = concat (map h ns)"
    using Cons.IH [OF rs] Cons.prems(2) by simp
  have "(case r of None \<Rightarrow> [] | Some sub \<Rightarrow> sub) = h n"
    using Cons.prems(2) [of n r] r by simp
  with ih subs show ?case
    by (cases r) simp_all
qed

lemma deepFragments_spec:
  assumes keys: "keysAreNames modelConfigs"
    and plain: "\<forall>n \<in> set tns. plainType ast modelConfigs n"
    and d: "deepFragments ast modelConfigs tns = Inr deep"
  shows "deep = concat (map (specDeepFragmentsOf ast modelConfigs) tns)"
proof -
  from d obtain subs where m: "mapE (deepFragmentsOf ast modelConfigs) tns = Inr subs"
    and deep: "deep = flatten subs"
    by (auto simp: deepFragments_def andThen_def split: sum.splits)
  have "flatten subs = concat (map (specDeepFragmentsOf ast modelConfigs) tns)"
    using m
  proof (rule flatten_spec)
    fix n r
    assume "n \<in> set tns" and "deepFragmentsOf ast modelConfigs n = Inr r"
    with plain show "(case r of None \<Rightarrow> [] | Some sub \<Rightarrow> sub) = specDeepFragmentsOf ast modelConfigs n"
      using deepFragmentsOf_spec [OF keys] by blast
  qed
  with deep show ?thesis
    by simp
qed

lemma deepFragments_no_DeepNesting:
  assumes "deepFragments ast modelConfigs tns = Inr frags" and "f \<in> set frags"
  shows "\<not> includesStr ''DeepNesting'' (fragment f)"
proof -
  from assms(1) obtain subs where m: "mapE (deepFragmentsOf ast modelConfigs) tns = Inr subs"
    and fr: "frags = flatten subs"
    by (auto simp: deepFragments_def andThen_def split: sum.splits)
  have "f \<in> set (flatten subs)"
    using assms(2) fr by simp
  from flatten_member [OF this] obtain sub where s: "Some sub \<in> set subs" and fs: "f \<in> set sub"
    by (elim exE conjE)
  from mapE_Inr_member [OF m s]
  obtain t where t: "deepFragmentsOf ast modelConfigs t = Inr (Some sub)"
    by (elim bexE)
  show ?thesis
    by (rule deepFragmentsOf_no_DeepNesting [OF t fs])
qed

lemma fragmentLists_deep:
  assumes "typeNames srt ast = Inr tns"
    and "fragmentLists srt ast (Some modelConfigs) = Inr (standard, noRelations, deep)"
  shows "deepFragments ast modelConfigs tns = Inr deep"
    and "makeFragments srt ast ''multi-file-graphql'' (Some modelConfigs) = Inr deep"
  using assms
  by (auto simp: fragmentLists_def makeFragments_def andThen_def split: sum.splits)




text \<open>
  Claim C4 as stated, that no emitted fragment has a text that contains \<^verbatim>\<open>DeepNesting\<close>,
  does not hold: only the deep fragments are rewritten, and the Default and the
  NoRelations fragment of a type whose name contains \<^verbatim>\<open>DeepNesting\<close> keep the name as it
  is.
\<close>

theorem default_fragment_keeps_DeepNesting:
  "fragmentLists (\<lambda>ns. ns) deepNestingSchema (Some [])
     = Inr ([\<lparr>name = ''DeepNestingThing'',
               fragment = ''fragment DeepNestingThing on DeepNestingThing {\<newline>  id\<newline>}\<newline>''\<rparr>],
            [\<lparr>name = ''DeepNestingThing'',
               fragment = ''fragment DeepNestingThingNoNesting on DeepNestingThing {\<newline>  id\<newline>}\<newline>''\<rparr>],
            [\<lparr>name = ''DeepNestingThingFull'',
               fragment = ''fragment FullThingFull on FullThing {\<newline>  id\<newline>}''\<rparr>])
   \<and> includesStr ''DeepNesting'' ''fragment DeepNestingThing on DeepNestingThing {\<newline>  id\<newline>}\<newline>''
   \<and> includesStr ''DeepNesting''
        ''fragment DeepNestingThingNoNesting on DeepNestingThing {\<newline>  id\<newline>}\<newline>''"
  by code_simp

text \<open>
  Claim C4, amended. In a run that builds its three arrays, with a tier configuration
  whose keys are GraphQL names: no fragment of the deep array, tiered or \<^verbatim>\<open>Full\<close>, has
  a text that contains \<^verbatim>\<open>DeepNesting\<close>; and when the names of the types processed, of
  their deep fields and of the targets of these are GraphQL names without
  \<^verbatim>\<open>DeepNesting\<close>, and the labels are made of name characters and give fragment names
  without \<^verbatim>\<open>DeepNesting\<close>, the deep array is the one of the specification: in every
  text the spread of a relation names the target's \<^verbatim>\<open>AdminListing\<close> fragment (label
  with \<^verbatim>\<open>Admin\<close>) or \<^verbatim>\<open>PublicListing\<close> fragment (label without, and every \<^verbatim>\<open>Full\<close>
  fragment) when the target has a key in the tier configuration, and the target's
  \<^verbatim>\<open>Full\<close> fragment otherwise.
\<close>

theorem deep_fragments_rewritten:
  assumes "typeNames srt ast = Inr tns"
    and "fragmentLists srt ast (Some modelConfigs) = Inr (standard, noRelations, deep)"
    and "keysAreNames modelConfigs"
  shows "(\<forall>f \<in> set deep. \<not> mentionsDeepNesting f)
       \<and> ((\<forall>n \<in> set tns. plainType ast modelConfigs n)
            \<longrightarrow> deep = concat (map (specDeepFragmentsOf ast modelConfigs) tns))"
proof -
  note d = fragmentLists_deep(1) [OF assms(1,2)]
  have "\<forall>f \<in> set deep. \<not> mentionsDeepNesting f"
    using deepFragments_no_DeepNesting [OF d] by (simp add: mentionsDeepNesting_def)
  moreover have "deep = concat (map (specDeepFragmentsOf ast modelConfigs) tns)"
    if "\<forall>n \<in> set tns. plainType ast modelConfigs n"
    by (rule deepFragments_spec [OF assms(3) that d])
  ultimately show ?thesis
    by blast
qed

theorem deep_fragments_rewritten_witness:
  "typeNames (\<lambda>ns. ns) forumSchema = Inr [''Thread'', ''User'', ''Comment'', ''Tag'', ''Image'']
   \<and> keysAreNames forumTiers
   \<and> list_all (plainType forumSchema forumTiers) [''Thread'', ''User'', ''Comment'', ''Tag'', ''Image'']
   \<and> makeFragments (\<lambda>ns. ns) forumSchema ''multi-file-graphql'' (Some forumTiers)
       = Inr [\<lparr>name = ''ThreadPublicListing'',
                fragment = ''fragment ThreadPublicListing on Thread {\<newline>  id\<newline>  title\<newline>}''\<rparr>,
              \<lparr>name = ''ThreadPublic'',
                fragment = ''fragment ThreadPublic on Thread {\<newline>  ...ThreadPublicListing\<newline>  author {\<newline>    ...UserPublicListing\<newline>  }\<newline>  comments {\<newline>    ...CommentFull\<newline>  }\<newline>}''\<rparr>,
              \<lparr>name = ''ThreadAdminListing'',
                fragment = ''fragment ThreadAdminListing on Thread {\<newline>  ...ThreadPublicListing\<newline>  author {\<newline>    ...UserAdminListing\<newline>  }\<newline>}''\<rparr>,
              \<lparr>name = ''ThreadAdmin'',
                fragment = ''fragment ThreadAdmin on Thread {\<newline>  ...ThreadAdminListing\<newline>  comments {\<newline>    ...CommentFull\<newline>  }\<newline>  tags {\<newline>    ...TagFull\<newline>  }\<newline>}''\<rparr>,
              \<lparr>name = ''UserPublicListing'',
                fragment = ''fragment UserPublicListing on User {\<newline>  id\<newline>}''\<rparr>,
              \<lparr>name = ''UserAdminListing'',
                fragment = ''fragment UserAdminListing on User {\<newline>  ...UserPublicListing\<newline>  name\<newline>  avatar {\<newline>    ...ImageFull\<newline>  }\<newline>}''\<rparr>,
              \<lparr>name = ''CommentFull'',
                fragment = ''fragment CommentFull on Comment {\<newline>  id\<newline>  body\<newline>  author {\<newline>    ...UserPublicListing\<newline>  }\<newline>  thread {\<newline>    ...ThreadPublicListing\<newline>  }\<newline>}''\<rparr>,
              \<lparr>name = ''TagFull'', fragment = ''fragment TagFull on Tag {\<newline>  label\<newline>}''\<rparr>,
              \<lparr>name = ''ImageFull'', fragment = ''fragment ImageFull on Image {\<newline>  url\<newline>}''\<rparr>]
   \<and> \<not> list_ex mentionsDeepNesting
         (concat (map (specDeepFragmentsOf forumSchema forumTiers)
                    [''Thread'', ''User'', ''Comment'', ''Tag'', ''Image'']))
   \<and> makeFragments (\<lambda>ns. ns) forumSchema ''multi-file-graphql'' (Some forumTiers)
       = Inr (concat (map (specDeepFragmentsOf forumSchema forumTiers)
                        [''Thread'', ''User'', ''Comment'', ''Tag'', ''Image'']))"
proof -
  let ?tns = "[''Thread'', ''User'', ''Comment'', ''Tag'', ''Image'']"
  obtain standard noRelations deep
    where fl: "fragmentLists (\<lambda>ns. ns) forumSchema (Some forumTiers) = Inr (standard, noRelations, deep)"
    by (cases "fragmentLists (\<lambda>ns. ns) forumSchema (Some forumTiers)") (code_simp, auto)
  have tn: "typeNames (\<lambda>ns. ns) forumSchema = Inr ?tns"
    by code_simp
  have k: "keysAreNames forumTiers"
    by code_simp
  have p: "list_all (plainType forumSchema forumTiers) ?tns"
    by code_simp
  have m: "makeFragments (\<lambda>ns. ns) forumSchema ''multi-file-graphql'' (Some forumTiers) = Inr deep"
    using fl by (simp add: makeFragments_def andThen_def)
  have lit: "makeFragments (\<lambda>ns. ns) forumSchema ''multi-file-graphql'' (Some forumTiers)
       = Inr [\<lparr>name = ''ThreadPublicListing'',
                fragment = ''fragment ThreadPublicListing on Thread {\<newline>  id\<newline>  title\<newline>}''\<rparr>,
              \<lparr>name = ''ThreadPublic'',
                fragment = ''fragment ThreadPublic on Thread {\<newline>  ...ThreadPublicListing\<newline>  author {\<newline>    ...UserPublicListing\<newline>  }\<newline>  comments {\<newline>    ...CommentFull\<newline>  }\<newline>}''\<rparr>,
              \<lparr>name = ''ThreadAdminListing'',
                fragment = ''fragment ThreadAdminListing on Thread {\<newline>  ...ThreadPublicListing\<newline>  author {\<newline>    ...UserAdminListing\<newline>  }\<newline>}''\<rparr>,
              \<lparr>name = ''ThreadAdmin'',
                fragment = ''fragment ThreadAdmin on Thread {\<newline>  ...ThreadAdminListing\<newline>  comments {\<newline>    ...CommentFull\<newline>  }\<newline>  tags {\<newline>    ...TagFull\<newline>  }\<newline>}''\<rparr>,
              \<lparr>name = ''UserPublicListing'',
                fragment = ''fragment UserPublicListing on User {\<newline>  id\<newline>}''\<rparr>,
              \<lparr>name = ''UserAdminListing'',
                fragment = ''fragment UserAdminListing on User {\<newline>  ...UserPublicListing\<newline>  name\<newline>  avatar {\<newline>    ...ImageFull\<newline>  }\<newline>}''\<rparr>,
              \<lparr>name = ''CommentFull'',
                fragment = ''fragment CommentFull on Comment {\<newline>  id\<newline>  body\<newline>  author {\<newline>    ...UserPublicListing\<newline>  }\<newline>  thread {\<newline>    ...ThreadPublicListing\<newline>  }\<newline>}''\<rparr>,
              \<lparr>name = ''TagFull'', fragment = ''fragment TagFull on Tag {\<newline>  label\<newline>}''\<rparr>,
              \<lparr>name = ''ImageFull'', fragment = ''fragment ImageFull on Image {\<newline>  url\<newline>}''\<rparr>]"
    by code_simp
  have p': "\<forall>n \<in> set ?tns. plainType forumSchema forumTiers n"
    using p unfolding list_all_iff .
  from deep_fragments_rewritten [OF tn fl k] p'
  have a: "\<forall>f \<in> set deep. \<not> mentionsDeepNesting f"
    and b: "deep = concat (map (specDeepFragmentsOf forumSchema forumTiers) ?tns)"
    by blast+
  have c: "\<not> list_ex mentionsDeepNesting
             (concat (map (specDeepFragmentsOf forumSchema forumTiers) ?tns))"
    using a unfolding b list_ex_iff by blast
  have d: "makeFragments (\<lambda>ns. ns) forumSchema ''multi-file-graphql'' (Some forumTiers)
             = Inr (concat (map (specDeepFragmentsOf forumSchema forumTiers) ?tns))"
    using m unfolding b .
  show ?thesis
    by (intro conjI) (rule tn k p lit c d)+
qed

subsection \<open>Tiered fragments\<close>




subsection \<open>An unrecognised generator\<close>





subsection \<open>Types without relations\<close>

lemma includesStr_join:
  assumes "\<And>f. f \<in> set fs \<Longrightarrow> \<not> includesStr ''DeepNesting'' f"
  shows "\<not> includesStr ''DeepNesting'' (join (indentedLine 1) fs)"
  using assms
proof (induction "indentedLine 1" fs rule: join.induct)
  case 1
  then show ?case by simp
next
  case (2 x)
  then show ?case by simp
next
  case (3 x y ys)
  have "\<not> includesStr ''DeepNesting'' (join (indentedLine 1) (y # ys))"
    using 3 by simp
  moreover have "\<not> includesStr ''DeepNesting'' x"
    using 3(2) by simp
  ultimately show ?case
    by (simp add: indentedLine_def includesStr_sep)
qed

lemma prefix_includesStr: "prefix p s \<Longrightarrow> includesStr p s"
  by (cases s) auto

lemma includesStr_appendI: "includesStr p (u @ p @ v)"
proof (induction u)
  case Nil
  show ?case by (simp add: prefix_includesStr)
next
  case (Cons x u)
  then show ?case by simp
qed

lemma includesStr_pattern_tail:
  assumes "includesStr (a @ b) s"
  shows "includesStr b s"
  using assms
proof (induction s)
  case Nil
  then show ?case by simp
next
  case (Cons c cs)
  show ?case
  proof (cases "prefix (a @ b) (c # cs)")
    case True
    then obtain v where "c # cs = a @ b @ v"
      by (auto simp: prefix_def)
    then show ?thesis
      using includesStr_appendI [of b a v] by simp
  next
    case False
    with Cons show ?thesis by simp
  qed
qed

lemma replaceAll_id:
  assumes "\<not> includesStr p s"
  shows "replaceAll p r s = s"
  using assms by (induction s) (auto simp: replaceAll.simps(2))

lemma replaceModels_id:
  assumes "\<not> includesStr ''DeepNesting'' s"
  shows "replaceModels listing modelNames s = s"
proof (induction modelNames)
  case Nil
  show ?case by simp
next
  case (Cons m ms)
  have "\<not> includesStr ((''...'' @ m) @ ''DeepNesting'') s"
    using assms includesStr_pattern_tail by blast
  then have "replaceAll (''...'' @ m @ ''DeepNesting'') (''...'' @ m @ listing) s = s"
    by (simp add: replaceAll_id)
  with Cons show ?case by simp
qed

lemma mapE_all_Inr:
  assumes "\<And>x. x \<in> set xs \<Longrightarrow> f x = Inr (g x)"
  shows "mapE f xs = Inr (map g xs)"
  using assms by (induction xs) (simp_all add: andThen_def)

text \<open>
  Claim C5 as stated does not hold for a type with an entry in the tier configuration:
  the fields of \<^verbatim>\<open>User\<close> are scalars, and its tier fragments select by allow-list and
  carry a leading spread, so what follows the name differs from the Default text.
  The Default text also ends in a newline, which no deep text has.
\<close>

theorem tiered_scalar_type_texts_differ:
  "getType blogSchema ''User''
     = Some (GraphQLObjectType
               [(''id'', NonNullType (NamedType ''ID'')), (''name'', NamedType ''String'')])
   \<and> scalarOrEnumField blogSchema (''id'', NonNullType (NamedType ''ID''))
   \<and> scalarOrEnumField blogSchema (''name'', NamedType ''String'')
   \<and> standardFragment blogSchema ''User''
       = Inr (Some \<lparr>name = ''User'',
                     fragment = ''fragment User on User {\<newline>  id\<newline>  name\<newline>}\<newline>''\<rparr>)
   \<and> deepFragmentsOf blogSchema blogTiers ''User''
       = Inr (Some [\<lparr>name = ''UserPublicListing'',
                      fragment = ''fragment UserPublicListing on User {\<newline>  id\<newline>}''\<rparr>,
                    \<lparr>name = ''UserAdminListing'',
                      fragment = ''fragment UserAdminListing on User {\<newline>  ...UserPublicListing\<newline>  id\<newline>  name\<newline>}''\<rparr>])
   \<and> afterHeader ''User'' [] ''fragment User on User {\<newline>  id\<newline>  name\<newline>}\<newline>''
       \<noteq> afterHeader ''User'' ''PublicListing''
           ''fragment UserPublicListing on User {\<newline>  id\<newline>}''
   \<and> afterHeader ''User'' [] ''fragment User on User {\<newline>  id\<newline>  name\<newline>}\<newline>''
       \<noteq> afterHeader ''User'' ''AdminListing''
           ''fragment UserAdminListing on User {\<newline>  ...UserPublicListing\<newline>  id\<newline>  name\<newline>}''"
  by code_simp

lemma fullText_no_DeepNesting:
  assumes "\<not> includesStr ''DeepNesting'' typeName"
    and "\<And>f. f \<in> set fieldNames \<Longrightarrow> \<not> includesStr ''DeepNesting'' f"
  shows "\<not> includesStr ''DeepNesting''
           (''fragment '' @ typeName @ ''Full on '' @ typeName @ '' {\<newline>  ''
            @ join (indentedLine 1) fieldNames @ ''\<newline>}'')"
  using assms(1) includesStr_join [of fieldNames, OF assms(2)]
  by (simp add: includesStr_sep del: One_nat_def)

lemma printField_unrelated:
  assumes "classifiedField ast f" and "\<not> relationField ast f"
  shows "printField ast (fst f) (snd f) ft indent
           = Inr (if scalarOrEnumField ast f then Some (fst f) else None)"
  using assms
  by (auto simp: classifiedField_def relationField_def scalarOrEnumField_def printField_def
        andThen_def split: sum.splits option.splits prod.splits)

lemma nonNull_filter:
  "nonNull (map (\<lambda>x. if P x then Some (h x) else None) xs) = map h (filter P xs)"
  by (induction xs) simp_all

lemma generateFragments_unrelated:
  assumes "\<And>f. f \<in> set fieldDefs \<Longrightarrow> classifiedField ast f \<and> \<not> relationField ast f"
  shows "generateFragments (GraphQLObjectType fieldDefs) ast ft
           = Inr (map fst (filter (scalarOrEnumField ast) fieldDefs))"
proof -
  have "mapE (\<lambda>(field, t). printField ast field t ft 1) fieldDefs
          = Inr (map (\<lambda>f. if scalarOrEnumField ast f then Some (fst f) else None) fieldDefs)"
  proof (rule mapE_all_Inr)
    fix x assume "x \<in> set fieldDefs"
    then have "classifiedField ast x" and "\<not> relationField ast x"
      using assms by blast+
    from printField_unrelated [OF this, of ft 1]
    show "(case x of (field, t) \<Rightarrow> printField ast field t ft 1)
            = Inr (if scalarOrEnumField ast x then Some (fst x) else None)"
      by (cases x) simp
  qed
  then show ?thesis
    by (simp add: generateFragments_def getFields_def andThen_def nonNull_filter)
qed

text \<open>
  Claim C5, amended. Take an object type none of whose fields classifies as a reference
  to an object type or fails to classify (each field classifies as scalar or enum and
  is printed, or is left out in every mode, as a field of type \<^verbatim>\<open>[String!]!\<close> is), with
  at least one printed field, that has no entry of its own in the tier configuration
  and is not named as a property of \<^verbatim>\<open>Object.prototype\<close> is, whose name and printed
  field names do not contain \<^verbatim>\<open>DeepNesting\<close>, with a tier configuration whose keys are GraphQL names.
  Its Default, NoRelations and Deep (\<^verbatim>\<open>Full\<close>) texts are the header name with the mode's
  suffix followed by one and the same selection; the Default and NoRelations texts
  end with a newline more.
\<close>

theorem scalar_only_type_same_selection:
  assumes "getType ast typeName = Some (GraphQLObjectType fieldDefs)"
    and "\<forall>f \<in> set fieldDefs. classifiedField ast f \<and> \<not> relationField ast f"
    and "filter (scalarOrEnumField ast) fieldDefs \<noteq> []"
    and "map_of modelConfigs typeName = None"
    and "typeName \<notin> set objectPrototypeNames"
    and "keysAreNames modelConfigs"
    and "\<not> includesStr ''DeepNesting'' typeName"
    and "\<forall>f \<in> set fieldDefs. scalarOrEnumField ast f \<longrightarrow> \<not> includesStr ''DeepNesting'' (fst f)"
  shows "standardFragment ast typeName
           = Inr (Some \<lparr>name = typeName,
                         fragment = ''fragment '' @ typeName
                           @ selectionOf typeName (map fst (filter (scalarOrEnumField ast) fieldDefs))
                           @ ''\<newline>''\<rparr>)
       \<and> noRelationsFragment ast typeName
           = Inr (Some \<lparr>name = typeName,
                         fragment = ''fragment '' @ typeName @ ''NoNesting''
                           @ selectionOf typeName (map fst (filter (scalarOrEnumField ast) fieldDefs))
                           @ ''\<newline>''\<rparr>)
       \<and> deepFragmentsOf ast modelConfigs typeName
           = Inr (Some [\<lparr>name = typeName @ ''Full'',
                          fragment = ''fragment '' @ typeName @ ''Full''
                            @ selectionOf typeName
                                (map fst (filter (scalarOrEnumField ast) fieldDefs))\<rparr>])"
proof -
  let ?names = "map fst (filter (scalarOrEnumField ast) fieldDefs)"
  have ne: "?names \<noteq> []"
    using assms(3) by simp
  have gen: "generateFragments (GraphQLObjectType fieldDefs) ast ft = Inr ?names" for ft
    using assms(2) by (intro generateFragments_unrelated) blast
  have mc: "modelConfigOf modelConfigs typeName = None"
    using assms(4,5) by (simp add: modelConfigOf_def)
  have std: "standardFragment ast typeName
           = Inr (Some \<lparr>name = typeName,
                         fragment = ''fragment '' @ typeName @ selectionOf typeName ?names @ ''\<newline>''\<rparr>)"
    using assms(1) ne by (simp add: standardFragment_def gen andThen_def selectionOf_def)
  have nr: "noRelationsFragment ast typeName
           = Inr (Some \<lparr>name = typeName,
                         fragment = ''fragment '' @ typeName @ ''NoNesting''
                           @ selectionOf typeName ?names @ ''\<newline>''\<rparr>)"
    using assms(1) ne by (simp add: noRelationsFragment_def gen andThen_def selectionOf_def)
  let ?text = "''fragment '' @ typeName @ ''Full on '' @ typeName @ '' {\<newline>  ''
            @ join (indentedLine 1) ?names @ ''\<newline>}''"
  have clean: "\<not> includesStr ''DeepNesting'' ?text"
    using assms(7,8) by (intro fullText_no_DeepNesting) auto
  have "fullFragment (map fst modelConfigs) typeName ?names
          = \<lparr>name = typeName @ ''Full'', fragment = ?text\<rparr>"
    unfolding fullFragment_def Let_def
    by (simp only: replaceModels_id [OF clean] replaceAll_id [OF clean])
  then have deep: "deepFragmentsOf ast modelConfigs typeName
           = Inr (Some [\<lparr>name = typeName @ ''Full'',
                          fragment = ''fragment '' @ typeName @ ''Full''
                            @ selectionOf typeName ?names\<rparr>])"
    using assms(1) ne mc by (simp add: deepFragmentsOf_def gen andThen_def selectionOf_def)
  from std nr deep show ?thesis
    by blast
qed

theorem scalar_only_type_same_selection_witness:
  "getType labelSchema ''Label''
     = Some (GraphQLObjectType
               [(''text'', NonNullType (NamedType ''String'')),
                (''aliases'', NonNullType (ListType (NonNullType (NamedType ''String''))))])
   \<and> scalarOrEnumField labelSchema (''text'', NonNullType (NamedType ''String''))
   \<and> classifiedField labelSchema
        (''aliases'', NonNullType (ListType (NonNullType (NamedType ''String''))))
   \<and> \<not> scalarOrEnumField labelSchema
        (''aliases'', NonNullType (ListType (NonNullType (NamedType ''String''))))
   \<and> \<not> relationField labelSchema
        (''aliases'', NonNullType (ListType (NonNullType (NamedType ''String''))))
   \<and> map_of blogTiers ''Label'' = None
   \<and> keysAreNames blogTiers
   \<and> standardFragment labelSchema ''Label''
       = Inr (Some \<lparr>name = ''Label'',
                     fragment = ''fragment Label on Label {\<newline>  text\<newline>}\<newline>''\<rparr>)
   \<and> noRelationsFragment labelSchema ''Label''
       = Inr (Some \<lparr>name = ''Label'',
                     fragment = ''fragment LabelNoNesting on Label {\<newline>  text\<newline>}\<newline>''\<rparr>)
   \<and> deepFragmentsOf labelSchema blogTiers ''Label''
       = Inr (Some [\<lparr>name = ''LabelFull'',
                      fragment = ''fragment LabelFull on Label {\<newline>  text\<newline>}''\<rparr>])"
proof -
  let ?defs = "[(''text'', NonNullType (NamedType ''String'')),
                (''aliases'', NonNullType (ListType (NonNullType (NamedType ''String''))))]"
  have t: "getType labelSchema ''Label'' = Some (GraphQLObjectType ?defs)"
    by (simp add: labelSchema_def getType_def)
  have s1: "scalarOrEnumField labelSchema (''text'', NonNullType (NamedType ''String''))"
    by code_simp
  have c2: "classifiedField labelSchema
        (''aliases'', NonNullType (ListType (NonNullType (NamedType ''String''))))"
    by code_simp
  have s2: "\<not> scalarOrEnumField labelSchema
        (''aliases'', NonNullType (ListType (NonNullType (NamedType ''String''))))"
    by code_simp
  have r2: "\<not> relationField labelSchema
        (''aliases'', NonNullType (ListType (NonNullType (NamedType ''String''))))"
    by code_simp
  have u: "\<forall>f \<in> set ?defs. classifiedField labelSchema f \<and> \<not> relationField labelSchema f"
    by code_simp
  have f: "filter (scalarOrEnumField labelSchema) ?defs
             = [(''text'', NonNullType (NamedType ''String''))]"
    using s1 s2 by simp
  have n: "filter (scalarOrEnumField labelSchema) ?defs \<noteq> []"
    unfolding f by simp
  have m: "map_of blogTiers ''Label'' = None"
    by (simp add: blogTiers_def)
  have o: "''Label'' \<notin> set objectPrototypeNames"
    by (simp add: objectPrototypeNames_def)
  have k: "keysAreNames blogTiers"
    by code_simp
  have d1: "\<not> includesStr ''DeepNesting'' ''Label''"
    by simp
  have d2: "\<forall>f \<in> set ?defs. scalarOrEnumField labelSchema f \<longrightarrow> \<not> includesStr ''DeepNesting'' (fst f)"
    by simp
  show ?thesis
    using t s1 c2 s2 r2 m k scalar_only_type_same_selection [OF t u n m o k d1 d2]
    unfolding f
    by (simp add: selectionOf_def indentedLine_def)
qed


subsection \<open>Fragment names\<close>

text \<open>
  Claim C8 as stated, that no two fragments emitted in one run share a name, does not
  hold: names are made by appending a suffix to the type name, and nothing keeps a
  type from being named as another type with a suffix. With the types \<^verbatim>\<open>Image\<close> and
  \<^verbatim>\<open>ImageFull\<close> the Default fragment of the second and the Deep fragment of the first are
  both named \<^verbatim>\<open>ImageFull\<close>.
\<close>

theorem type_named_with_Full_shares_a_name:
  "emittedNames (\<lambda>ns. ns) imageSchema (Some [])
     = Inr [''Image'', ''ImageFull'', ''ImageNoNesting'', ''ImageFullNoNesting'',
            ''ImageFull'', ''ImageFullFull'']
   \<and> \<not> distinct [''Image'', ''ImageFull'', ''ImageNoNesting'', ''ImageFullNoNesting'',
                   ''ImageFull'', ''ImageFullFull'']"
  by code_simp

lemma replaceModels_head:
  assumes "CHR ''.'' \<notin> set a"
  shows "replaceModels listing modelNames (a @ b) = a @ replaceModels listing modelNames b"
proof (induction modelNames arbitrary: b)
  case Nil
  show ?case by simp
next
  case (Cons m ms)
  have "replaceAll (''...'' @ m @ ''DeepNesting'') (''...'' @ m @ listing) (a @ b)
          = a @ replaceAll (''...'' @ m @ ''DeepNesting'') (''...'' @ m @ listing) b"
    using assms by (intro replaceAll_head) simp_all
  with Cons show ?case
    by simp
qed

lemma definitionName_header:
  assumes "CHR '' '' \<notin> set ns"
  shows "definitionName (''fragment '' @ ns @ CHR '' '' # rest) = ns"
  using assms by (simp add: definitionName_def takeWhile_sep)

lemma header_survives:
  assumes "CHR '' '' \<notin> set ns" and "CHR ''.'' \<notin> set ns" and "\<not> includesStr ''DeepNesting'' ns"
  shows "definitionName (replaceAll ''DeepNesting'' ''Full''
           (replaceModels listing modelNames (''fragment '' @ ns @ CHR '' '' # rest))) = ns"
proof -
  have "CHR ''.'' \<notin> set (''fragment '' @ ns @ '' '')"
    using assms(2) by simp
  from replaceModels_head [OF this, of listing modelNames rest]
  have 1: "replaceModels listing modelNames (''fragment '' @ ns @ CHR '' '' # rest)
          = (''fragment '' @ ns) @ CHR '' '' # replaceModels listing modelNames rest"
    by simp
  have "\<not> includesStr ''DeepNesting'' (''fragment '' @ ns)"
    using assms(3) by simp
  then have 2: "replaceAll ''DeepNesting'' ''Full''
            ((''fragment '' @ ns) @ CHR '' '' # replaceModels listing modelNames rest)
          = (''fragment '' @ ns) @ CHR '' ''
              # replaceAll ''DeepNesting'' ''Full'' (replaceModels listing modelNames rest)"
    by (intro replaceAll_sep) simp_all
  have 3: "definitionName ((''fragment '' @ ns) @ CHR '' ''
              # replaceAll ''DeepNesting'' ''Full'' (replaceModels listing modelNames rest)) = ns"
    using definitionName_header [OF assms(1)] by simp
  show ?thesis
    by (simp only: 1 2 3)
qed


lemma standardFragment_name:
  assumes "standardFragment ast n = Inr (Some f)" and "CHR '' '' \<notin> set n"
  shows "definitionName (fragment f) = n"
proof -
  from assms(1) obtain rest where "fragment f = ''fragment '' @ n @ CHR '' '' # rest"
    by (auto simp: standardFragment_def andThen_def split: option.splits sum.splits if_splits)
  then show ?thesis
    using definitionName_header [OF assms(2)] by simp
qed

lemma noRelationsFragment_name:
  assumes "noRelationsFragment ast n = Inr (Some f)" and "CHR '' '' \<notin> set n"
  shows "definitionName (fragment f) = n @ ''NoNesting''"
proof -
  from assms(1) obtain rest
    where "fragment f = ''fragment '' @ (n @ ''NoNesting'') @ CHR '' '' # rest"
    by (auto simp: noRelationsFragment_def andThen_def split: option.splits sum.splits if_splits)
  moreover have "CHR '' '' \<notin> set (n @ ''NoNesting'')"
    using assms(2) by simp
  ultimately show ?thesis
    using definitionName_header [of "n @ ''NoNesting''"] by simp
qed

lemma label_chars:
  assumes "l \<in> set (''Full'' # tierLabels)"
  shows "CHR '' '' \<notin> set l" and "CHR ''.'' \<notin> set l"
    and "\<not> includesStr ''DeepNesting'' n \<Longrightarrow> \<not> includesStr ''DeepNesting'' (n @ l)"
  using assms by (auto simp: tierLabels_def includesStr_sep)

lemma tierFragment_name:
  assumes "CHR '' '' \<notin> set n" and "CHR ''.'' \<notin> set n" and "\<not> includesStr ''DeepNesting'' n"
    and "l \<in> set (''Full'' # tierLabels)"
  shows "definitionName (fragment (tierFragment modelNames n deepFields (l, allowlist))) = n @ l"
proof -
  have a: "CHR '' '' \<notin> set (n @ l)" and b: "CHR ''.'' \<notin> set (n @ l)"
    using assms(1,2) label_chars(1,2) [OF assms(4)] by simp_all
  have c: "\<not> includesStr ''DeepNesting'' (n @ l)"
    using label_chars(3) [OF assms(4) assms(3)] .
  obtain rest where t: "''fragment '' @ n @ l @ '' on '' @ n @ '' {\<newline>  ''
              @ join (indentedLine 1) (spreadFragments n l)
              @ join (indentedLine 1) (filter (\<lambda>f. firstToken f \<in> set allowlist) deepFields)
              @ ''\<newline>}'' = ''fragment '' @ (n @ l) @ CHR '' '' # rest"
    by simp
  show ?thesis
  proof (cases "includesStr ''Admin'' l")
    case True
    then show ?thesis
      unfolding tierFragment_def Let_def prod.case Fragment.simps t
      by (simp only: not_True_eq_False if_False header_survives [OF a b c])
  next
    case False
    then show ?thesis
      unfolding tierFragment_def Let_def prod.case Fragment.simps t
      by (simp only: not_False_eq_True if_True header_survives [OF a b c])
  qed
qed

lemma fullFragment_name:
  assumes "CHR '' '' \<notin> set n" and "CHR ''.'' \<notin> set n" and "\<not> includesStr ''DeepNesting'' n"
  shows "definitionName (fragment (fullFragment modelNames n deepFields)) = n @ ''Full''"
proof -
  have l: "''Full'' \<in> set (''Full'' # tierLabels)"
    by simp
  have a: "CHR '' '' \<notin> set (n @ ''Full'')" and b: "CHR ''.'' \<notin> set (n @ ''Full'')"
    using assms(1,2) by simp_all
  have c: "\<not> includesStr ''DeepNesting'' (n @ ''Full'')"
    using label_chars(3) [OF l assms(3)] .
  obtain rest where t: "''fragment '' @ n @ ''Full on '' @ n @ '' {\<newline>  ''
            @ join (indentedLine 1) deepFields @ ''\<newline>}''
          = ''fragment '' @ (n @ ''Full'') @ CHR '' '' # rest"
    by simp
  show ?thesis
    unfolding fullFragment_def Let_def Fragment.simps t
    by (simp only: header_survives [OF a b c])
qed


lemma nonNull_names:
  assumes "andThen (mapE cb tns) (\<lambda>r. Inr (nonNull r)) = Inr frs"
    and "\<And>n f. n \<in> set tns \<Longrightarrow> cb n = Inr (Some f) \<Longrightarrow> nm f = g n"
  shows "map nm frs = map g (filter (\<lambda>n. cb n \<noteq> Inr None) tns)"
  using assms
proof (induction tns arbitrary: frs)
  case Nil
  then show ?case by (simp add: andThen_def)
next
  case (Cons n ns)
  from Cons.prems(1) obtain r rs where r: "cb n = Inr r" and rs: "mapE cb ns = Inr rs"
    and frs: "frs = nonNull (r # rs)"
    by (auto simp: andThen_def split: sum.splits)
  have "andThen (mapE cb ns) (\<lambda>r. Inr (nonNull r)) = Inr (nonNull rs)"
    using rs by (simp add: andThen_def)
  then have ih: "map nm (nonNull rs) = map g (filter (\<lambda>n. cb n \<noteq> Inr None) ns)"
    using Cons.IH Cons.prems(2) by simp
  show ?case
  proof (cases r)
    case None
    with r frs ih show ?thesis by simp
  next
    case (Some f)
    with r have "nm f = g n"
      using Cons.prems(2) by simp
    with Some r frs ih show ?thesis by simp
  qed
qed

lemma flatten_names:
  assumes "andThen (mapE cb tns) (\<lambda>r. Inr (flatten r)) = Inr frs"
    and "\<And>n sub. n \<in> set tns \<Longrightarrow> cb n = Inr (Some sub) \<Longrightarrow> map nm sub = h n"
    and "\<And>n. n \<in> set tns \<Longrightarrow> cb n = Inr None \<Longrightarrow> h n = []"
  shows "map nm frs = concat (map h tns)"
  using assms
proof (induction tns arbitrary: frs)
  case Nil
  then show ?case by (simp add: andThen_def)
next
  case (Cons n ns)
  from Cons.prems(1) obtain r rs where r: "cb n = Inr r" and rs: "mapE cb ns = Inr rs"
    and frs: "frs = flatten (r # rs)"
    by (auto simp: andThen_def split: sum.splits)
  have "andThen (mapE cb ns) (\<lambda>r. Inr (flatten r)) = Inr (flatten rs)"
    using rs by (simp add: andThen_def)
  then have ih: "map nm (flatten rs) = concat (map h ns)"
    using Cons.IH Cons.prems(2,3) by simp
  show ?case
  proof (cases r)
    case None
    with r have "h n = []"
      using Cons.prems(3) by simp
    with None frs ih show ?thesis by simp
  next
    case (Some sub)
    with r have "map nm sub = h n"
      using Cons.prems(2) by simp
    with Some frs ih show ?thesis by simp
  qed
qed

lemma modelConfigOf_entry:
  assumes "modelConfigOf modelConfigs n = Some entry"
    and "\<forall>(k, e) \<in> set modelConfigs. distinct (map fst e) \<and> set (map fst e) \<subseteq> set tierLabels"
  shows "distinct (map fst entry) \<and> set (map fst entry) \<subseteq> set tierLabels"
proof (cases "map_of modelConfigs n")
  case None
  with assms(1) have "entry = []"
    by (simp add: modelConfigOf_def split: if_splits)
  then show ?thesis by simp
next
  case (Some e)
  with assms(1) have "e = entry"
    by (simp add: modelConfigOf_def)
  with Some have "(n, entry) \<in> set modelConfigs"
    by (simp add: map_of_SomeD)
  with assms(2) show ?thesis by blast
qed

lemma deepLabels_ok:
  assumes "\<forall>(k, e) \<in> set modelConfigs. distinct (map fst e) \<and> set (map fst e) \<subseteq> set tierLabels"
  shows "distinct (deepLabels ast modelConfigs n)"
    and "set (deepLabels ast modelConfigs n) \<subseteq> set (''Full'' # tierLabels)"
  using modelConfigOf_entry [OF _ assms, of n]
  by (auto simp: deepLabels_def split: option.splits)

lemma deepFragmentsOf_names:
  assumes "deepFragmentsOf ast modelConfigs n = Inr (Some sub)"
    and "CHR '' '' \<notin> set n" and "CHR ''.'' \<notin> set n" and "\<not> includesStr ''DeepNesting'' n"
    and "\<forall>(k, e) \<in> set modelConfigs. distinct (map fst e) \<and> set (map fst e) \<subseteq> set tierLabels"
  shows "map (\<lambda>f. definitionName (fragment f)) sub = map ((@) n) (deepLabels ast modelConfigs n)"
proof -
  from assms(1) obtain ty where ty: "getType ast n = Some ty"
    by (auto simp: deepFragmentsOf_def split: option.splits)
  from assms(1) ty obtain deepFields where g: "generateFragments ty ast DEEP = Inr deepFields"
    by (auto simp: deepFragmentsOf_def andThen_def split: sum.splits)
  show ?thesis
  proof (cases "modelConfigOf modelConfigs n")
    case None
    with assms(1) ty g have "sub = [fullFragment (map fst modelConfigs) n deepFields]"
      by (simp add: deepFragmentsOf_def andThen_def split: if_splits)
    moreover have "deepLabels ast modelConfigs n = [''Full'']"
      using assms(1) None by (simp add: deepLabels_def)
    ultimately show ?thesis
      using fullFragment_name [OF assms(2,3,4)] by simp
  next
    case (Some entry)
    with assms(1) ty g
    have sub: "sub = map (tierFragment (map fst modelConfigs) n deepFields) entry"
      by (simp add: deepFragmentsOf_def andThen_def split: if_splits)
    have lab: "deepLabels ast modelConfigs n = map fst entry"
      using assms(1) Some by (simp add: deepLabels_def)
    have "set (map fst entry) \<subseteq> set tierLabels"
      using modelConfigOf_entry [OF Some assms(5)] by simp
    then have "definitionName (fragment (tierFragment (map fst modelConfigs) n deepFields t))
                 = n @ fst t" if "t \<in> set entry" for t
      using that
        tierFragment_name [where n = n and l = "fst t" and allowlist = "snd t"
          and modelNames = "map fst modelConfigs" and deepFields = deepFields, OF assms(2,3,4)]
      by auto
    then show ?thesis
      unfolding sub lab by simp
  qed
qed

lemma append_eq_suffix:
  assumes "xs @ ys = us @ vs"
  shows "suffix ys vs \<or> suffix vs ys"
  using assms by (auto simp: append_eq_append_conv2 suffix_def)

lemma nameSuffixes_suffix_free:
  assumes "s1 \<in> set nameSuffixes" and "s2 \<in> set nameSuffixes" and "suffix s1 s2"
  shows "s1 = s2"
  using assms by (auto simp: nameSuffixes_def tierLabels_def suffix_to_prefix)

lemma suffixed_names_inj:
  assumes "s1 \<in> set nameSuffixes" and "s2 \<in> set nameSuffixes" and "n1 @ s1 = n2 @ s2"
  shows "n1 = n2 \<and> s1 = s2"
proof -
  from append_eq_suffix [OF assms(3)] have "s1 = s2"
    using nameSuffixes_suffix_free assms(1,2) by blast
  with assms(3) show ?thesis by simp
qed

lemma distinct_concat_map:
  assumes "distinct xs"
    and "\<And>x. x \<in> set xs \<Longrightarrow> distinct (h x)"
    and "\<And>x y. x \<in> set xs \<Longrightarrow> y \<in> set xs \<Longrightarrow> x \<noteq> y \<Longrightarrow> set (h x) \<inter> set (h y) = {}"
  shows "distinct (concat (map h xs))"
  using assms
proof (induction xs)
  case Nil
  show ?case by simp
next
  case (Cons x xs)
  have "distinct (concat (map h xs))"
    using Cons by simp
  moreover have "distinct (h x)"
    using Cons.prems(2) by simp
  moreover have "set (h x) \<inter> set (concat (map h xs)) = {}"
  proof -
    have "set (h x) \<inter> set (h y) = {}" if "y \<in> set xs" for y
      using that Cons.prems(1) Cons.prems(3) [of x y] by auto
    then show ?thesis by auto
  qed
  ultimately show ?case by simp
qed


lemma names_distinct:
  assumes "distinct tns"
    and "\<forall>n \<in> set tns. \<forall>m \<in> set tns. \<forall>s \<in> set nameSuffixes. n \<noteq> m @ s"
    and "\<And>n. distinct (g n)"
    and "\<And>n. set (g n) \<subseteq> set (''Full'' # tierLabels)"
  shows "distinct (filter P tns @ map (\<lambda>n. n @ ''NoNesting'') (filter Q tns)
                    @ concat (map (\<lambda>n. map ((@) n) (g n)) tns))"
proof -
  have lab: "l \<in> set nameSuffixes" if "l \<in> set (g n)" for l n
    using that assms(4) [of n] by (auto simp: nameSuffixes_def)
  have nn: "''NoNesting'' \<in> set nameSuffixes"
    by (simp add: nameSuffixes_def)
  have nl: "l \<noteq> ''NoNesting''" if "l \<in> set (g n)" for l n
    using that assms(4) [of n] by (auto simp: tierLabels_def)
  have e1: False
    if "x \<in> set tns" and "m \<in> set tns" and "x = m @ s" and "s \<in> set nameSuffixes" for x m s
    using assms(2) that by blast
  have d1: "distinct (filter P tns)"
    using assms(1) by simp
  have d2: "distinct (map (\<lambda>n. n @ ''NoNesting'') (filter Q tns))"
    using assms(1) by (simp add: distinct_map inj_on_def)
  have d3: "distinct (concat (map (\<lambda>n. map ((@) n) (g n)) tns))"
  proof (rule distinct_concat_map [OF assms(1)])
    fix x
    show "distinct (map ((@) x) (g x))"
      using assms(3) [of x] by (simp add: distinct_map inj_on_def)
  next
    fix x y :: string
    assume xy: "x \<noteq> y"
    show "set (map ((@) x) (g x)) \<inter> set (map ((@) y) (g y)) = {}"
    proof (rule ccontr)
      assume "set (map ((@) x) (g x)) \<inter> set (map ((@) y) (g y)) \<noteq> {}"
      then obtain l l' where l: "l \<in> set (g x)" and l': "l' \<in> set (g y)" and eq: "x @ l = y @ l'"
        by auto
      from suffixed_names_inj [OF lab [OF l] lab [OF l'] eq] xy show False
        by simp
    qed
  qed
  have i12: "set (filter P tns) \<inter> set (map (\<lambda>n. n @ ''NoNesting'') (filter Q tns)) = {}"
  proof (rule ccontr)
    assume "set (filter P tns) \<inter> set (map (\<lambda>n. n @ ''NoNesting'') (filter Q tns)) \<noteq> {}"
    then obtain x m where "x \<in> set tns" and "m \<in> set tns" and "x = m @ ''NoNesting''"
      by auto
    then show False
      using e1 nn by blast
  qed
  have i13: "set (filter P tns) \<inter> set (concat (map (\<lambda>n. map ((@) n) (g n)) tns)) = {}"
  proof (rule ccontr)
    assume "set (filter P tns) \<inter> set (concat (map (\<lambda>n. map ((@) n) (g n)) tns)) \<noteq> {}"
    then obtain x m l where "x \<in> set tns" and "m \<in> set tns" and "x = m @ l"
      and "l \<in> set (g m)"
      by auto
    then show False
      using e1 lab by blast
  qed
  have i23: "set (map (\<lambda>n. n @ ''NoNesting'') (filter Q tns))
               \<inter> set (concat (map (\<lambda>n. map ((@) n) (g n)) tns)) = {}"
  proof (rule ccontr)
    assume "set (map (\<lambda>n. n @ ''NoNesting'') (filter Q tns))
               \<inter> set (concat (map (\<lambda>n. map ((@) n) (g n)) tns)) \<noteq> {}"
    then obtain m m' l where l: "l \<in> set (g m')" and eq: "m @ ''NoNesting'' = m' @ l"
      by auto
    from suffixed_names_inj [OF nn lab [OF l] eq] nl [OF l] show False
      by simp
  qed
  from d1 d2 d3 i12 i13 i23 show ?thesis
    by (simp add: Int_Un_distrib)
qed

lemma typeNames_distinct:
  assumes "typeNames srt ast = Inr tns"
    and "\<forall>ns. distinct ns \<longrightarrow> distinct (srt ns)"
    and "\<forall>ns. set (srt ns) \<subseteq> set ns"
    and "distinct (map fst (typeMap ast))"
  shows "distinct tns" and "set tns \<subseteq> set (map fst (typeMap ast))"
proof -
  have dc: "distinct (candidateNames ast)"
    using assms(4) by (simp add: candidateNames_def)
  have sc: "set (candidateNames ast) \<subseteq> set (map fst (typeMap ast))"
    by (auto simp: candidateNames_def)
  from assms(1) obtain base where tns: "tns = srt base" and db: "distinct base"
    and sb: "set base \<subseteq> set (candidateNames ast)"
  proof (cases "candidateNames ast = []")
    case True
    with assms(1) have "tns = srt []"
      by (simp add: typeNames_def andThen_def)
    then show ?thesis
      by (intro that [of "[]"]) simp_all
  next
    case False
    with assms(1) obtain q where "queryType ast = Some q"
      by (cases "queryType ast") (simp_all add: typeNames_def andThen_def)
    let ?base = "filter (\<lambda>n. case subscriptionType ast of Some s \<Rightarrow> n \<noteq> s | None \<Rightarrow> True)
            (filter (\<lambda>n. case mutationType ast of Some m \<Rightarrow> n \<noteq> m | None \<Rightarrow> True)
              (filter (\<lambda>n. n \<noteq> q) (candidateNames ast)))"
    from False assms(1) \<open>queryType ast = Some q\<close> have "tns = srt ?base"
      by (simp add: typeNames_def andThen_def)
    moreover have "distinct ?base"
      using dc by simp
    moreover have "set ?base \<subseteq> set (candidateNames ast)"
      by auto
    ultimately show ?thesis
      by (rule that)
  qed
  show "distinct tns"
    using tns db assms(2) by simp
  show "set tns \<subseteq> set (map fst (typeMap ast))"
    using tns sb sc assms(3) by blast
qed

text \<open>
  Claim C8, amended. Let the type names of the schema be distinct, let the names of the
  types that the run processes be GraphQL names without \<^verbatim>\<open>DeepNesting\<close>, none of them
  the name of another of them followed by \<^verbatim>\<open>NoNesting\<close>, \<^verbatim>\<open>Full\<close> or a tier label, and let
  the tier configuration have GraphQL names as keys and, in every entry, distinct
  labels among the four of \<^verbatim>\<open>ModelFragmentType\<close>. Then the names of the fragment
  definitions emitted in one run are pairwise distinct. The engine's sort is only
  assumed to keep distinct names distinct and to invent none.
\<close>

theorem emitted_names_distinct:
  assumes "\<forall>ns. distinct ns \<longrightarrow> distinct (srt ns)"
    and "\<forall>ns. set (srt ns) \<subseteq> set ns"
    and "distinct (map fst (typeMap ast))"
    and "typeNames srt ast = Inr tns"
    and "\<forall>n \<in> set tns. plainName n"
    and "\<forall>n \<in> set tns. \<forall>m \<in> set tns. \<forall>s \<in> set nameSuffixes. n \<noteq> m @ s"
    and "\<forall>(k, e) \<in> set modelConfigs. distinct (map fst e) \<and> set (map fst e) \<subseteq> set tierLabels"
    and "keysAreNames modelConfigs"
    and "emittedNames srt ast (Some modelConfigs) = Inr names"
  shows "distinct names"
proof -
  note tn = assms(4)
  from assms(9) tn obtain standard noRelations deep
    where st: "standardFragments ast tns = Inr standard"
      and nr: "noRelationsFragments ast tns = Inr noRelations"
      and dp: "deepFragments ast modelConfigs tns = Inr deep"
      and names: "names = map (\<lambda>f. definitionName (fragment f)) (standard @ noRelations @ deep)"
    by (auto simp: emittedNames_def fragmentLists_def andThen_def split: sum.splits)
  note tp = typeNames_distinct [OF tn assms(1,2,3)]
  have good: "isName n" "\<not> includesStr ''DeepNesting'' n" if "n \<in> set tns" for n
    using that assms(5) by (auto simp: plainName_def)
  have sp: "CHR '' '' \<notin> set n" "CHR ''.'' \<notin> set n" if "n \<in> set tns" for n
    using isName_chars(1,2) [OF good(1) [OF that]] .
  have a: "map (\<lambda>f. definitionName (fragment f)) standard
             = map (\<lambda>n. n) (filter (\<lambda>n. standardFragment ast n \<noteq> Inr None) tns)"
    using st [unfolded standardFragments_def]
  proof (rule nonNull_names)
    fix n f assume "n \<in> set tns" and "standardFragment ast n = Inr (Some f)"
    then show "definitionName (fragment f) = n"
      using standardFragment_name sp(1) by blast
  qed
  have b: "map (\<lambda>f. definitionName (fragment f)) noRelations
             = map (\<lambda>n. n @ ''NoNesting'') (filter (\<lambda>n. noRelationsFragment ast n \<noteq> Inr None) tns)"
    using nr [unfolded noRelationsFragments_def]
  proof (rule nonNull_names)
    fix n f assume "n \<in> set tns" and "noRelationsFragment ast n = Inr (Some f)"
    then show "definitionName (fragment f) = n @ ''NoNesting''"
      using noRelationsFragment_name sp(1) by blast
  qed
  have c: "map (\<lambda>f. definitionName (fragment f)) deep
             = concat (map (\<lambda>n. map ((@) n) (deepLabels ast modelConfigs n)) tns)"
    using dp [unfolded deepFragments_def]
  proof (rule flatten_names)
    fix n sub assume "n \<in> set tns" and "deepFragmentsOf ast modelConfigs n = Inr (Some sub)"
    then show "map (\<lambda>f. definitionName (fragment f)) sub
                 = map ((@) n) (deepLabels ast modelConfigs n)"
      using deepFragmentsOf_names sp good(2) assms(7) by blast
  next
    fix n assume "deepFragmentsOf ast modelConfigs n = Inr None"
    then show "map ((@) n) (deepLabels ast modelConfigs n) = []"
      by (simp add: deepLabels_def)
  qed
  have "distinct (filter (\<lambda>n. standardFragment ast n \<noteq> Inr None) tns
          @ map (\<lambda>n. n @ ''NoNesting'') (filter (\<lambda>n. noRelationsFragment ast n \<noteq> Inr None) tns)
          @ concat (map (\<lambda>n. map ((@) n) (deepLabels ast modelConfigs n)) tns))"
  proof (rule names_distinct)
    show "distinct tns" by (rule tp(1))
    show "\<forall>n \<in> set tns. \<forall>m \<in> set tns. \<forall>s \<in> set nameSuffixes. n \<noteq> m @ s"
      by (rule assms(6))
    show "distinct (deepLabels ast modelConfigs n)" for n
      by (rule deepLabels_ok(1) [OF assms(7)])
    show "set (deepLabels ast modelConfigs n) \<subseteq> set (''Full'' # tierLabels)" for n
      by (rule deepLabels_ok(2) [OF assms(7)])
  qed
  then show ?thesis
    unfolding names map_append a b c by simp
qed

theorem emitted_names_distinct_witness:
  "typeNames (\<lambda>ns. ns) blogSchema = Inr [''Post'', ''User'', ''Comment'']
   \<and> list_all plainName [''Post'', ''User'', ''Comment'']
   \<and> keysAreNames blogTiers
   \<and> emittedNames (\<lambda>ns. ns) blogSchema (Some blogTiers)
     = Inr [''Post'', ''User'', ''Comment'',
            ''PostNoNesting'', ''UserNoNesting'', ''CommentNoNesting'',
            ''PostPublicListing'', ''PostPublic'', ''PostAdmin'',
            ''UserPublicListing'', ''UserAdminListing'', ''CommentFull'']
   \<and> distinct [''Post'', ''User'', ''Comment'',
            ''PostNoNesting'', ''UserNoNesting'', ''CommentNoNesting'',
            ''PostPublicListing'', ''PostPublic'', ''PostAdmin'',
            ''UserPublicListing'', ''UserAdminListing'', ''CommentFull'']
   \<and> typeNames (\<lambda>ns. ns) adminSchema = Inr [''Admin'']
   \<and> emittedNames (\<lambda>ns. ns) adminSchema (Some []) = Inr [''Admin'', ''AdminNoNesting'', ''AdminFull'']
   \<and> distinct [''Admin'', ''AdminNoNesting'', ''AdminFull'']"
proof -
  let ?tns = "[''Post'', ''User'', ''Comment'']"
  have s1: "\<forall>ns :: string list. distinct ns \<longrightarrow> distinct ns"
    by simp
  have s2: "\<forall>ns :: string list. set ns \<subseteq> set ns"
    by simp
  have d: "distinct (map fst (typeMap blogSchema))"
    by code_simp
  have tn: "typeNames (\<lambda>ns. ns) blogSchema = Inr ?tns"
    by code_simp
  have p: "list_all plainName ?tns"
    by code_simp
  have g: "\<forall>n \<in> set ?tns. plainName n"
    using p unfolding list_all_iff .
  have x: "\<forall>n \<in> set ?tns. \<forall>m \<in> set ?tns. \<forall>s \<in> set nameSuffixes. n \<noteq> m @ s"
    by code_simp
  have t: "\<forall>(k, e) \<in> set blogTiers. distinct (map fst e) \<and> set (map fst e) \<subseteq> set tierLabels"
    by code_simp
  have k: "keysAreNames blogTiers"
    by code_simp
  have e: "emittedNames (\<lambda>ns. ns) blogSchema (Some blogTiers)
     = Inr [''Post'', ''User'', ''Comment'',
            ''PostNoNesting'', ''UserNoNesting'', ''CommentNoNesting'',
            ''PostPublicListing'', ''PostPublic'', ''PostAdmin'',
            ''UserPublicListing'', ''UserAdminListing'', ''CommentFull'']"
    by code_simp
  have d': "distinct (map fst (typeMap adminSchema))"
    by code_simp
  have tn': "typeNames (\<lambda>ns. ns) adminSchema = Inr [''Admin'']"
    by code_simp
  have g': "\<forall>n \<in> set [''Admin'']. plainName n"
    by code_simp
  have x': "\<forall>n \<in> set [''Admin'']. \<forall>m \<in> set [''Admin'']. \<forall>s \<in> set nameSuffixes. n \<noteq> m @ s"
    by code_simp
  have t': "\<forall>(k, e) \<in> set ([] :: (string \<times> ModelConfig) list).
              distinct (map fst e) \<and> set (map fst e) \<subseteq> set tierLabels"
    by simp
  have k': "keysAreNames []"
    by (simp add: keysAreNames_def)
  have e': "emittedNames (\<lambda>ns. ns) adminSchema (Some [])
              = Inr [''Admin'', ''AdminNoNesting'', ''AdminFull'']"
    by code_simp
  from emitted_names_distinct [where srt = "\<lambda>ns. ns", OF s1 s2 d tn g x t k e]
    emitted_names_distinct [where srt = "\<lambda>ns. ns", OF s1 s2 d' tn' g' x' t' k' e']
    tn p k e tn' e'
  show ?thesis
    by simp
qed

end
